theory Spec2Isabelle
  imports Main "HOL-Library.Word"
begin

section \<open>A FAT file system inside a 64 MB image file (fatfs.c)\<close>

text \<open>
  The theory embeds the file-system engine of \<^verbatim>\<open>fatfs.c\<close>: the block layer
  (\<^verbatim>\<open>read_block\<close>, \<^verbatim>\<open>write_block\<close>), the FAT (\<^verbatim>\<open>allocate_block\<close>,
  \<^verbatim>\<open>free_blocks\<close>), the directory scans, \<^verbatim>\<open>format_partition\<close>, \<^verbatim>\<open>mount_partition\<close>
  and the file operations. The global \<^verbatim>\<open>fs\<close> is passed and returned explicitly, every
  \<^verbatim>\<open>return -1\<close> is an error value named after the message printed before it, and
  \<^verbatim>\<open>time(NULL)\<close> is an argument. So is the content of memory that the code reads
  without having written it: the buffer returned by \<^verbatim>\<open>malloc\<close> and the local
  \<^verbatim>\<open>Directory\<close> variables.
\<close>

subsection \<open>Constants\<close>

definition BLOCK_SIZE :: nat where "BLOCK_SIZE = 1024"
definition TOTAL_DISK_SIZE :: nat where "TOTAL_DISK_SIZE = 64 * 1024 * 1024"
definition MAX_BLOCKS :: nat where "MAX_BLOCKS = TOTAL_DISK_SIZE div BLOCK_SIZE"
definition MAX_FILES_IN_DIR :: nat where "MAX_FILES_IN_DIR = 128"
definition MAX_FILENAME_SIZE :: nat where "MAX_FILENAME_SIZE = 64"
definition MAX_FILE_BLOCKS :: nat where "MAX_FILE_BLOCKS = 128"
definition FAT_ENTRY_FREE :: "16 word" where "FAT_ENTRY_FREE = 0xFFFF"
definition FAT_ENTRY_EOF :: "16 word" where "FAT_ENTRY_EOF = 0xFFFE"
definition FAT_ENTRY_BAD :: "16 word" where "FAT_ENTRY_BAD = 0xFFFD"
definition TYPE_FILE :: "8 word" where "TYPE_FILE = 0"
definition TYPE_DIRECTORY :: "8 word" where "TYPE_DIRECTORY = 1"

subsection \<open>Data\<close>

text \<open>
  The structs are records with the fields of the source. A \<^verbatim>\<open>char[]\<close> field of the
  boot sector is the C string it holds (the bytes before the first NUL). The
  \<^verbatim>\<open>filename\<close> of a directory entry is the array itself, a list of its
  \<^verbatim>\<open>MAX_FILENAME_SIZE\<close> bytes, because a directory block ends inside one (see below).
  The other fixed-size arrays (\<^verbatim>\<open>entries\<close>, the FAT, a block buffer) are functions
  from the index.
\<close>

type_synonym byte = "8 word"

definition NUL :: char where "NUL = CHR 0x00"

record BootSector =
  signature :: string
  total_blocks :: "32 word"
  fat_blocks :: "32 word"
  root_dir_block :: "32 word"
  data_start_block :: "32 word"
  block_size :: "16 word"
  fat_copies :: "8 word"
  volume_label :: string
  boot_created_time :: "32 word"

record DirectoryEntry =
  filename :: string
  file_size :: "32 word"
  first_block :: "16 word"
  type :: "8 word"
  created_time :: "32 word"
  modified_time :: "32 word"
  attributes :: "8 word"

record Directory =
  entries :: "nat \<Rightarrow> DirectoryEntry"
  entry_count :: "16 word"

text \<open>
  \<^verbatim>\<open>memset(p, 0, sizeof *p)\<close> on an entry and on a directory.
\<close>

definition zero_entry :: DirectoryEntry where
  "zero_entry = \<lparr>filename = replicate MAX_FILENAME_SIZE NUL, file_size = 0, first_block = 0,
     type = 0, created_time = 0, modified_time = 0, attributes = 0\<rparr>"

definition zero_directory :: Directory where
  "zero_directory = \<lparr>entries = (\<lambda>i. zero_entry), entry_count = 0\<rparr>"

text \<open>
  The string functions on a \<^verbatim>\<open>filename\<close> array. \<open>c_string a\<close> is the C string stored
  in \<open>a\<close>. \<^verbatim>\<open>strcmp(a, name) == 0\<close> is \<open>c_string a = name\<close>, for a \<open>name\<close> that is a C
  string (no NUL inside); in an array with no NUL at all, \<^verbatim>\<open>strcmp\<close> would read on into
  the fields after it, and the model compares the 64 bytes only. \<^verbatim>\<open>strcpy(a, name)\<close>
  stores the bytes of \<open>name\<close> and one NUL and leaves the rest of \<open>a\<close> as it was; its
  callers have checked \<^verbatim>\<open>strlen(name) < MAX_FILENAME_SIZE\<close>.
\<close>

definition c_string :: "string \<Rightarrow> string" where
  "c_string a = takeWhile (\<lambda>c. c \<noteq> NUL) a"

definition strcpy :: "string \<Rightarrow> string \<Rightarrow> string" where
  "strcpy dest src = src @ NUL # drop (Suc (length src)) dest"

text \<open>
  The size of the structs. With the fields at their natural alignment (the 32-bit fields
  on multiples of 4, as the common ABIs lay them out) a \<^verbatim>\<open>DirectoryEntry\<close> is
  64 + 4 + 2 + 1 + 1 (padding) + 4 + 4 + 1 + 3 (padding) = 84 bytes with \<^verbatim>\<open>filename\<close>
  at offset 0, and a \<^verbatim>\<open>Directory\<close> is 128 * 84 + 2 + 2 (padding) = 10756 bytes.
  \<^verbatim>\<open>read_block\<close> and \<^verbatim>\<open>write_block\<close> move \<^verbatim>\<open>BLOCK_SIZE\<close> = 1024 bytes. So the
  block of a directory holds \<^verbatim>\<open>entries[0]\<close> to \<^verbatim>\<open>entries[11]\<close> (1008 bytes) and the
  first 16 bytes of \<^verbatim>\<open>entries[12].filename\<close>; the rest of \<^verbatim>\<open>entries[12]\<close>,
  \<^verbatim>\<open>entries[13]\<close> to \<^verbatim>\<open>entries[127]\<close> and \<^verbatim>\<open>entry_count\<close> are never read from the
  image, and \<^verbatim>\<open>write_block\<close> never stores them.
\<close>

definition SIZEOF_ENTRY :: nat where "SIZEOF_ENTRY = 84"
definition SIZEOF_DIRECTORY :: nat where "SIZEOF_DIRECTORY = MAX_FILES_IN_DIR * SIZEOF_ENTRY + 4"
definition ENTRIES_IN_BLOCK :: nat where "ENTRIES_IN_BLOCK = BLOCK_SIZE div SIZEOF_ENTRY"
definition NAME_BYTES_IN_BLOCK :: nat where "NAME_BYTES_IN_BLOCK = BLOCK_SIZE mod SIZEOF_ENTRY"

record DirBlock =
  whole_entries :: "DirectoryEntry list"
  name_bytes :: string

text \<open>
  \<open>dir_prefix dir\<close> is the first \<^verbatim>\<open>BLOCK_SIZE\<close> bytes of the struct \<open>dir\<close>, what
  \<^verbatim>\<open>write_block(n, &dir)\<close> stores. \<open>dir_overlay dir b\<close> is the struct \<open>dir\<close> after
  \<^verbatim>\<open>read_block(n, &dir)\<close> has put the block \<open>b\<close> over its first \<^verbatim>\<open>BLOCK_SIZE\<close> bytes:
  everything after them is what \<open>dir\<close> held before.
\<close>

definition dir_prefix :: "Directory \<Rightarrow> DirBlock" where
  "dir_prefix dir =
     \<lparr>whole_entries = map (entries dir) [0..<ENTRIES_IN_BLOCK],
      name_bytes = take NAME_BYTES_IN_BLOCK (filename (entries dir ENTRIES_IN_BLOCK))\<rparr>"

definition dir_overlay :: "Directory \<Rightarrow> DirBlock \<Rightarrow> Directory" where
  "dir_overlay dir b =
     dir\<lparr>entries := (\<lambda>i.
        if i < ENTRIES_IN_BLOCK then whole_entries b ! i
        else if i = ENTRIES_IN_BLOCK
        then (entries dir i)\<lparr>filename :=
               name_bytes b @ drop NAME_BYTES_IN_BLOCK (filename (entries dir i))\<rparr>
        else entries dir i)\<rparr>"

text \<open>
  A block of the image is kept under the C type it was written through: the boot sector,
  a 512-entry slice of the FAT, the first 1024 bytes of a \<^verbatim>\<open>Directory\<close>, or 1024 data
  bytes. \<^verbatim>\<open>read_block\<close> fills a \<^verbatim>\<open>void*\<close>; the caller's cast is one of the views below.
  Seen through another type than the one it was written through, a block's value depends
  on the byte order and on the layout of the structs, and is left open.
\<close>

datatype block =
    BootB BootSector
  | FatB "nat \<Rightarrow> 16 word"
  | DirB DirBlock
  | DataB "nat \<Rightarrow> byte"



fun block_dir :: "block \<Rightarrow> DirBlock" where
  "block_dir (DirB d) = d"
| "block_dir other = undefined"

fun block_bytes :: "block \<Rightarrow> nat \<Rightarrow> byte" where
  "block_bytes (DataB d) = d"
| "block_bytes other = undefined"

type_synonym image = "nat \<Rightarrow> block"

text \<open>
  The context \<^verbatim>\<open>fs\<close>. \<^verbatim>\<open>disk_file\<close> is \<open>None\<close> for the NULL handle and the image
  behind the handle otherwise; \<^verbatim>\<open>fat_table\<close> is the in-memory table of
  \<^verbatim>\<open>MAX_BLOCKS\<close> 16-bit entries.
\<close>

record FileSystem =
  disk_file :: "image option"
  boot_sector :: BootSector
  fat_table :: "nat \<Rightarrow> 16 word"
  current_dir_block :: "32 word"
  current_path :: string

datatype error =
    IoError
  | NameTooLong
  | Exists
  | DirFull
  | NotFound
  | NotAFile
  | TooLarge
  | OutOfSpace
  | Grow
  | CannotOpen
  | NotAFilesystem

subsection \<open>Low-level block operations\<close>

text \<open>
  \<^verbatim>\<open>fseek(fs.disk_file, block_num * BLOCK_SIZE, SEEK_SET)\<close>: the product is computed
  in \<^verbatim>\<open>uint32_t\<close>, so the block reached is the one at the wrapped offset.
\<close>

definition seek_block :: "nat \<Rightarrow> nat" where
  "seek_block block_num = (block_num * BLOCK_SIZE) mod 2 ^ 32 div BLOCK_SIZE"

definition read_block :: "FileSystem \<Rightarrow> nat \<Rightarrow> block option" where
  "read_block fs block_num =
     (case disk_file fs of
        None \<Rightarrow> None
      | Some img \<Rightarrow>
          if block_num \<ge> unat (total_blocks (boot_sector fs)) then None
          else Some (img (seek_block block_num)))"

definition write_block :: "FileSystem \<Rightarrow> nat \<Rightarrow> block \<Rightarrow> FileSystem option" where
  "write_block fs block_num buffer =
     (case disk_file fs of
        None \<Rightarrow> None
      | Some img \<Rightarrow>
          if block_num \<ge> unat (total_blocks (boot_sector fs)) then None
          else Some (fs\<lparr>disk_file := Some (img(seek_block block_num := buffer))\<rparr>))"

subsection \<open>FAT table operations\<close>

text \<open>
  The loop \<^verbatim>\<open>for (i = lo; i < hi; i++) if (P(i)) return i;\<close> shared by the allocator
  and the two directory scans.
\<close>

function first_from :: "(nat \<Rightarrow> bool) \<Rightarrow> nat \<Rightarrow> nat \<Rightarrow> nat option" where
  "first_from P i hi = (if i < hi then (if P i then Some i else first_from P (Suc i) hi) else None)"
  by pat_completeness auto
termination
  by (relation "measure (\<lambda>(P, i, hi). hi - i)") auto

declare first_from.simps [simp del]

text \<open>
  The flush loop \<^verbatim>\<open>for (j = 0; j < fat_blocks; j++) write_block(1 + j, fat_table + j * 512)\<close>;
  the result of \<^verbatim>\<open>write_block\<close> is ignored.
\<close>

definition fat_slice :: "(nat \<Rightarrow> 16 word) \<Rightarrow> nat \<Rightarrow> block" where
  "fat_slice fat j = FatB (\<lambda>k. fat (j * (BLOCK_SIZE div 2) + k))"

primrec write_fat :: "nat \<Rightarrow> FileSystem \<Rightarrow> FileSystem" where
  "write_fat 0 fs = fs"
| "write_fat (Suc j) fs =
     (let fs' = write_fat j fs in
      case write_block fs' (1 + j) (fat_slice (fat_table fs') j) of
        None \<Rightarrow> fs'
      | Some fs'' \<Rightarrow> fs'')"

definition flush_fat :: "FileSystem \<Rightarrow> FileSystem" where
  "flush_fat fs = write_fat (unat (fat_blocks (boot_sector fs))) fs"

text \<open>
  \<^verbatim>\<open>allocate_block\<close> returns \<^verbatim>\<open>uint16_t\<close>: the index \<^verbatim>\<open>i\<close> found by the
  \<^verbatim>\<open>uint32_t\<close> scan is truncated to 16 bits by \<^verbatim>\<open>return i\<close>.
\<close>

definition allocate_block :: "FileSystem \<Rightarrow> 16 word \<times> FileSystem" where
  "allocate_block fs =
     (case first_from (\<lambda>i. fat_table fs i = FAT_ENTRY_FREE)
             (unat (data_start_block (boot_sector fs))) (unat (total_blocks (boot_sector fs))) of
        Some i \<Rightarrow> (of_nat i, flush_fat (fs\<lparr>fat_table := (fat_table fs)(i := FAT_ENTRY_EOF)\<rparr>))
      | None \<Rightarrow> (FAT_ENTRY_FREE, fs))"

text \<open>
  The walk of \<^verbatim>\<open>free_blocks\<close>. It ends: a step either frees an entry that was not
  free, or reads \<^verbatim>\<open>FREE\<close> as the next block and stops.
\<close>

function free_walk :: "(nat \<Rightarrow> 16 word) \<Rightarrow> 16 word \<Rightarrow> (nat \<Rightarrow> 16 word)" where
  "free_walk fat current_block =
     (if current_block \<noteq> FAT_ENTRY_EOF \<and> current_block \<noteq> FAT_ENTRY_FREE
      then free_walk (fat(unat current_block := FAT_ENTRY_FREE)) (fat (unat current_block))
      else fat)"
  by pat_completeness auto
termination
proof (relation "measure (\<lambda>(fat, cur). 2 * card {i. i < 65536 \<and> fat i \<noteq> FAT_ENTRY_FREE}
          + (if cur \<noteq> FAT_ENTRY_EOF \<and> cur \<noteq> FAT_ENTRY_FREE then 1 else 0))")
  show "wf (measure (\<lambda>(fat, cur). 2 * card {i. i < 65536 \<and> fat i \<noteq> FAT_ENTRY_FREE}
          + (if cur \<noteq> FAT_ENTRY_EOF \<and> cur \<noteq> FAT_ENTRY_FREE then 1 else 0)))"
    by simp
next
  fix fat :: "nat \<Rightarrow> 16 word" and current_block :: "16 word"
  assume run: "current_block \<noteq> FAT_ENTRY_EOF \<and> current_block \<noteq> FAT_ENTRY_FREE"
  let ?c = "unat current_block"
  let ?S = "{i. i < 65536 \<and> fat i \<noteq> FAT_ENTRY_FREE}"
  let ?S' = "{i. i < 65536 \<and> (fat(?c := FAT_ENTRY_FREE)) i \<noteq> FAT_ENTRY_FREE}"
  have fin: "finite ?S" by simp
  have c_lt: "?c < 65536" using unsigned_less [of current_block, where ?'a = nat] by simp
  have S': "?S' = ?S - {?c}" by auto
  show "((fat(?c := FAT_ENTRY_FREE), fat ?c), (fat, current_block))
        \<in> measure (\<lambda>(fat, cur). 2 * card {i. i < 65536 \<and> fat i \<noteq> FAT_ENTRY_FREE}
          + (if cur \<noteq> FAT_ENTRY_EOF \<and> cur \<noteq> FAT_ENTRY_FREE then 1 else 0))"
  proof (cases "fat ?c = FAT_ENTRY_FREE")
    case True
    then have "?S' = ?S" by auto
    with True run show ?thesis by simp
  next
    case False
    with c_lt have "?c \<in> ?S" by simp
    with fin have "card (?S - {?c}) < card ?S" by (rule card_Diff1_less)
    then have "card ?S' < card ?S" by (simp only: S')
    then show ?thesis using run by simp
  qed
qed

declare free_walk.simps [simp del]

definition free_blocks :: "FileSystem \<Rightarrow> 16 word \<Rightarrow> FileSystem" where
  "free_blocks fs first_block' =
     flush_fat (fs\<lparr>fat_table := free_walk (fat_table fs) first_block'\<rparr>)"

subsection \<open>Directory operations\<close>

text \<open>
  Every function that works on a directory declares a local \<^verbatim>\<open>Directory dir;\<close>, not
  initialised, and calls \<^verbatim>\<open>read_block(n, &dir)\<close>, which fills its first 1024 bytes.
  What the local holds when the function is entered is an argument of the function
  (\<open>dir_local\<close>); a function that calls \<^verbatim>\<open>find_file_in_directory\<close> or
  \<^verbatim>\<open>find_free_directory_entry\<close> takes the content of their locals as arguments too
  (\<open>find_local\<close>, \<open>free_local\<close>).
\<close>

definition find_free_directory_entry :: "FileSystem \<Rightarrow> nat \<Rightarrow> Directory \<Rightarrow> nat option" where
  "find_free_directory_entry fs dir_block dir_local =
     (case read_block fs dir_block of
        None \<Rightarrow> None
      | Some b \<Rightarrow>
          (let dir = dir_overlay dir_local (block_dir b)
           in first_from (\<lambda>i. filename (entries dir i) ! 0 = NUL) 0 MAX_FILES_IN_DIR))"

definition find_file_in_directory ::
  "FileSystem \<Rightarrow> nat \<Rightarrow> string \<Rightarrow> Directory \<Rightarrow> nat option" where
  "find_file_in_directory fs dir_block name dir_local =
     (case read_block fs dir_block of
        None \<Rightarrow> None
      | Some b \<Rightarrow>
          (let dir = dir_overlay dir_local (block_dir b)
           in first_from (\<lambda>i. filename (entries dir i) ! 0 \<noteq> NUL
                               \<and> c_string (filename (entries dir i)) = name) 0 MAX_FILES_IN_DIR))"

subsection \<open>Format and mount\<close>








definition unmount_partition :: "FileSystem \<Rightarrow> FileSystem" where
  "unmount_partition fs = fs\<lparr>disk_file := None\<rparr>"

subsection \<open>File operations\<close>

definition create_file ::
  "FileSystem \<Rightarrow> string \<Rightarrow> 32 word \<Rightarrow> Directory \<Rightarrow> Directory \<Rightarrow> Directory
     \<Rightarrow> (error + unit) \<times> FileSystem" where
  "create_file fs name now dir_local find_local free_local =
     (if length name \<ge> MAX_FILENAME_SIZE then (Inl NameTooLong, fs)
      else (case read_block fs (unat (current_dir_block fs)) of
        None \<Rightarrow> (Inl IoError, fs)
      | Some b \<Rightarrow>
          (let dir = dir_overlay dir_local (block_dir b) in
           if find_file_in_directory fs (unat (current_dir_block fs)) name find_local \<noteq> None
           then (Inl Exists, fs)
           else (case find_free_directory_entry fs (unat (current_dir_block fs)) free_local of
             None \<Rightarrow> (Inl DirFull, fs)
           | Some entry_index \<Rightarrow>
               (let entry = (entries dir entry_index)\<lparr>
                              filename := strcpy (filename (entries dir entry_index)) name,
                              file_size := 0,
                              first_block := FAT_ENTRY_EOF, type := TYPE_FILE,
                              created_time := now, modified_time := now, attributes := 0\<rparr>;
                    dir' = dir\<lparr>entries := (entries dir)(entry_index := entry),
                              entry_count := entry_count dir + 1\<rparr>
                in (case write_block fs (unat (current_dir_block fs)) (DirB (dir_prefix dir')) of
                      None \<Rightarrow> (Inl IoError, fs)
                    | Some fs' \<Rightarrow> (Inr (), fs')))))))"

definition delete_file ::
  "FileSystem \<Rightarrow> string \<Rightarrow> Directory \<Rightarrow> Directory \<Rightarrow> (error + unit) \<times> FileSystem" where
  "delete_file fs name dir_local find_local =
     (case read_block fs (unat (current_dir_block fs)) of
        None \<Rightarrow> (Inl IoError, fs)
      | Some b \<Rightarrow>
          (let dir = dir_overlay dir_local (block_dir b) in
           (case find_file_in_directory fs (unat (current_dir_block fs)) name find_local of
              None \<Rightarrow> (Inl NotFound, fs)
            | Some entry_index \<Rightarrow>
                (let entry = entries dir entry_index in
                 if type entry \<noteq> TYPE_FILE then (Inl NotAFile, fs)
                 else
                   (let fs1 = (if first_block entry \<noteq> FAT_ENTRY_EOF
                               then free_blocks fs (first_block entry) else fs);
                        dir' = dir\<lparr>entries := (entries dir)(entry_index := zero_entry),
                                  entry_count := entry_count dir - 1\<rparr>
                    in (case write_block fs1 (unat (current_dir_block fs1)) (DirB (dir_prefix dir')) of
                          None \<Rightarrow> (Inl IoError, fs1)
                        | Some fs2 \<Rightarrow> (Inr (), fs2)))))))"

text \<open>
  \<^verbatim>\<open>read_file\<close> prints the content; the model returns the bytes passed to
  \<^verbatim>\<open>fwrite(buffer, 1, bytes_to_print, stdout)\<close>, in order.
\<close>

function read_loop :: "FileSystem \<Rightarrow> 16 word \<Rightarrow> nat \<Rightarrow> error + byte list" where
  "read_loop fs current_block bytes_remaining =
     (if current_block \<noteq> FAT_ENTRY_EOF \<and> bytes_remaining > 0 then
        (case read_block fs (unat current_block) of
           None \<Rightarrow> Inl IoError
         | Some buffer \<Rightarrow>
             (let bytes_to_print = (if bytes_remaining > BLOCK_SIZE then BLOCK_SIZE else bytes_remaining)
              in (case read_loop fs (fat_table fs (unat current_block)) (bytes_remaining - bytes_to_print) of
                    Inl e \<Rightarrow> Inl e
                  | Inr out \<Rightarrow> Inr (map (block_bytes buffer) [0..<bytes_to_print] @ out))))
      else Inr [])"
  by pat_completeness auto
termination
  by (relation "measure (\<lambda>(fs, cur, n). n)") (auto simp: BLOCK_SIZE_def)

declare read_loop.simps [simp del]

definition read_file ::
  "FileSystem \<Rightarrow> string \<Rightarrow> Directory \<Rightarrow> Directory \<Rightarrow> error + byte list" where
  "read_file fs name dir_local find_local =
     (case read_block fs (unat (current_dir_block fs)) of
        None \<Rightarrow> Inl IoError
      | Some b \<Rightarrow>
          (let dir = dir_overlay dir_local (block_dir b) in
           (case find_file_in_directory fs (unat (current_dir_block fs)) name find_local of
              None \<Rightarrow> Inl NotFound
            | Some entry_index \<Rightarrow>
                (let entry = entries dir entry_index in
                 if type entry \<noteq> TYPE_FILE then Inl NotAFile
                 else if file_size entry = 0 then Inr []
                 else read_loop fs (first_block entry) (unat (file_size entry))))))"

text \<open>
  The allocation loop of \<^verbatim>\<open>write_file\<close>. \<open>data_ptr\<close> is the rest of the string,
  \<^verbatim>\<open>block_data\<close> the zeroed buffer with the next \<^verbatim>\<open>bytes_to_write\<close> bytes copied in.
  The loop returns \<^verbatim>\<open>first_block\<close> and \<^verbatim>\<open>prev_block\<close>, or the error it left with.
\<close>

function write_loop ::
  "FileSystem \<Rightarrow> byte list \<Rightarrow> nat \<Rightarrow> 16 word \<Rightarrow> 16 word
     \<Rightarrow> (error + 16 word \<times> 16 word) \<times> FileSystem" where
  "write_loop fs data_ptr bytes_remaining first_block' prev_block =
     (if bytes_remaining > 0 then
        (case allocate_block fs of (new_block, fs1) \<Rightarrow>
           if new_block = FAT_ENTRY_FREE
           then (Inl OutOfSpace,
                 if first_block' \<noteq> FAT_ENTRY_EOF then free_blocks fs1 first_block' else fs1)
           else
             (let first_block'' = (if first_block' = FAT_ENTRY_EOF then new_block else first_block');
                  fs2 = (if prev_block \<noteq> FAT_ENTRY_EOF
                         then fs1\<lparr>fat_table := (fat_table fs1)(unat prev_block := new_block)\<rparr>
                         else fs1);
                  bytes_to_write = (if bytes_remaining > BLOCK_SIZE then BLOCK_SIZE else bytes_remaining);
                  block_data = (\<lambda>i. if i < bytes_to_write then data_ptr ! i else 0)
              in (case write_block fs2 (unat new_block) (DataB block_data) of
                    None \<Rightarrow> (Inl IoError, free_blocks fs2 first_block'')
                  | Some fs3 \<Rightarrow>
                      write_loop fs3 (drop bytes_to_write data_ptr)
                        (bytes_remaining - bytes_to_write) first_block'' new_block)))
      else (Inr (first_block', prev_block), fs))"
  by pat_completeness auto
termination
  by (relation "measure (\<lambda>(fs, d, n, f, p). n)") (auto simp: BLOCK_SIZE_def)

declare write_loop.simps [simp del]

text \<open>
  \<open>data\<close> is the C string passed (its bytes before the NUL), so \<^verbatim>\<open>strlen(data)\<close>
  is its length, stored in a \<^verbatim>\<open>uint32_t\<close>.
\<close>

definition write_file ::
  "FileSystem \<Rightarrow> string \<Rightarrow> byte list \<Rightarrow> 32 word \<Rightarrow> Directory \<Rightarrow> Directory
     \<Rightarrow> (error + unit) \<times> FileSystem" where
  "write_file fs name data now dir_local find_local =
     (case read_block fs (unat (current_dir_block fs)) of
        None \<Rightarrow> (Inl IoError, fs)
      | Some b \<Rightarrow>
          (let dir = dir_overlay dir_local (block_dir b) in
           (case find_file_in_directory fs (unat (current_dir_block fs)) name find_local of
              None \<Rightarrow> (Inl NotFound, fs)
            | Some entry_index \<Rightarrow>
                (let entry = entries dir entry_index in
                 if type entry \<noteq> TYPE_FILE then (Inl NotAFile, fs)
                 else
                   (let data_size = length data mod 2 ^ 32 in
                    if data_size > MAX_FILE_BLOCKS * BLOCK_SIZE then (Inl TooLarge, fs)
                    else
                      (let fs1 = (if first_block entry \<noteq> FAT_ENTRY_EOF
                                  then free_blocks fs (first_block entry) else fs)
                       in (case write_loop fs1 data data_size FAT_ENTRY_EOF FAT_ENTRY_EOF of
                             (Inl e, fs2) \<Rightarrow> (Inl e, fs2)
                           | (Inr (first_block', prev_block), fs2) \<Rightarrow>
                               (let fs3 = (if prev_block \<noteq> FAT_ENTRY_EOF
                                           then fs2\<lparr>fat_table :=
                                                  (fat_table fs2)(unat prev_block := FAT_ENTRY_EOF)\<rparr>
                                           else fs2);
                                    entry' = entry\<lparr>first_block := first_block',
                                               file_size := of_nat data_size, modified_time := now\<rparr>;
                                    dir' = dir\<lparr>entries := (entries dir)(entry_index := entry')\<rparr>
                                in (case write_block fs3 (unat (current_dir_block fs3))
                                            (DirB (dir_prefix dir')) of
                                      None \<Rightarrow> (Inl IoError, fs3)
                                    | Some fs4 \<Rightarrow> (Inr (), flush_fat fs4))))))))))"

text \<open>
  The bounded walk of \<^verbatim>\<open>truncate_file\<close>:
  \<^verbatim>\<open>for (i = 0; i < blocks_needed && current_block != EOF; i++)\<close>, returning
  \<^verbatim>\<open>current_block\<close> and \<^verbatim>\<open>prev_block\<close>.
\<close>

fun trunc_walk :: "(nat \<Rightarrow> 16 word) \<Rightarrow> nat \<Rightarrow> 16 word \<Rightarrow> 16 word \<Rightarrow> 16 word \<times> 16 word" where
  "trunc_walk fat 0 current_block prev_block = (current_block, prev_block)"
| "trunc_walk fat (Suc n) current_block prev_block =
     (if current_block \<noteq> FAT_ENTRY_EOF
      then trunc_walk fat n (fat (unat current_block)) current_block
      else (current_block, prev_block))"

definition truncate_file ::
  "FileSystem \<Rightarrow> string \<Rightarrow> 32 word \<Rightarrow> 32 word \<Rightarrow> Directory \<Rightarrow> Directory
     \<Rightarrow> (error + unit) \<times> FileSystem" where
  "truncate_file fs name new_size now dir_local find_local =
     (case read_block fs (unat (current_dir_block fs)) of
        None \<Rightarrow> (Inl IoError, fs)
      | Some b \<Rightarrow>
          (let dir = dir_overlay dir_local (block_dir b) in
           (case find_file_in_directory fs (unat (current_dir_block fs)) name find_local of
              None \<Rightarrow> (Inl NotFound, fs)
            | Some entry_index \<Rightarrow>
                (let entry = entries dir entry_index in
                 if type entry \<noteq> TYPE_FILE then (Inl NotAFile, fs)
                 else if new_size > file_size entry then (Inl Grow, fs)
                 else if new_size = file_size entry then (Inr (), fs)
                 else
                   (let blocks_needed = (new_size + of_nat BLOCK_SIZE - 1) div of_nat BLOCK_SIZE
                    in (case trunc_walk (fat_table fs) (unat blocks_needed) (first_block entry)
                                 FAT_ENTRY_EOF of
                          (current_block, prev_block) \<Rightarrow>
                            (let fs1 = (if current_block \<noteq> FAT_ENTRY_EOF
                                        then (let fs' = free_blocks fs current_block in
                                              if prev_block \<noteq> FAT_ENTRY_EOF
                                              then fs'\<lparr>fat_table :=
                                                     (fat_table fs')(unat prev_block := FAT_ENTRY_EOF)\<rparr>
                                              else fs')
                                        else fs);
                                 entry' = entry\<lparr>file_size := new_size, modified_time := now\<rparr>;
                                 dir' = dir\<lparr>entries := (entries dir)(entry_index := entry')\<rparr>
                             in (case write_block fs1 (unat (current_dir_block fs1))
                                         (DirB (dir_prefix dir')) of
                                   None \<Rightarrow> (Inl IoError, fs1)
                                 | Some fs2 \<Rightarrow> (Inr (), fs2)))))))))"

subsection \<open>Directory creation\<close>

text \<open>
  \<^verbatim>\<open>create_directory\<close> calls \<^verbatim>\<open>time(NULL)\<close> three times; \<open>t0\<close>, \<open>t1\<close> and \<open>t2\<close> are
  what the calls return. The parent's block number is stored in the 16-bit
  \<^verbatim>\<open>first_block\<close> of the \<^verbatim>\<open>..\<close> entry.
\<close>

definition create_directory ::
  "FileSystem \<Rightarrow> string \<Rightarrow> 32 word \<Rightarrow> 32 word \<Rightarrow> 32 word \<Rightarrow> Directory \<Rightarrow> Directory \<Rightarrow> Directory
     \<Rightarrow> (error + unit) \<times> FileSystem" where
  "create_directory fs dirname t0 t1 t2 dir_local find_local free_local =
     (if length dirname \<ge> MAX_FILENAME_SIZE then (Inl NameTooLong, fs)
      else (case read_block fs (unat (current_dir_block fs)) of
        None \<Rightarrow> (Inl IoError, fs)
      | Some b \<Rightarrow>
          (let current_dir = dir_overlay dir_local (block_dir b) in
           if find_file_in_directory fs (unat (current_dir_block fs)) dirname find_local \<noteq> None
           then (Inl Exists, fs)
           else (case find_free_directory_entry fs (unat (current_dir_block fs)) free_local of
             None \<Rightarrow> (Inl DirFull, fs)
           | Some entry_index \<Rightarrow>
               (case allocate_block fs of (dir_block, fs1) \<Rightarrow>
                  if dir_block = FAT_ENTRY_FREE then (Inl OutOfSpace, fs1)
                  else
                    (let self = zero_entry\<lparr>filename := strcpy (filename zero_entry) ''.'',
                                  first_block := dir_block,
                                  type := TYPE_DIRECTORY, created_time := t0, modified_time := t0\<rparr>;
                         parent = zero_entry\<lparr>filename := strcpy (filename zero_entry) ''..'',
                                  first_block := ucast (current_dir_block fs1),
                                  type := TYPE_DIRECTORY, created_time := t1, modified_time := t1\<rparr>;
                         new_dir = zero_directory\<lparr>entries := (entries zero_directory)(0 := self, 1 := parent),
                                  entry_count := 2\<rparr>
                     in (case write_block fs1 (unat dir_block) (DirB (dir_prefix new_dir)) of
                           None \<Rightarrow> (Inl IoError, free_blocks fs1 dir_block)
                         | Some fs2 \<Rightarrow>
                             (let entry = (entries current_dir entry_index)\<lparr>
                                            filename := strcpy (filename (entries current_dir entry_index)) dirname,
                                            first_block := dir_block, type := TYPE_DIRECTORY,
                                            created_time := t2, modified_time := t2\<rparr>;
                                  current_dir' = current_dir\<lparr>
                                            entries := (entries current_dir)(entry_index := entry),
                                            entry_count := entry_count current_dir + 1\<rparr>
                              in (case write_block fs2 (unat (current_dir_block fs2))
                                          (DirB (dir_prefix current_dir')) of
                                    None \<Rightarrow> (Inl IoError, fs2)
                                  | Some fs3 \<Rightarrow> (Inr (), fs3))))))))))"

subsection \<open>Chains and walks\<close>

text \<open>
  \<open>is_chain fat head bs\<close>: following the FAT from \<open>head\<close> visits exactly the blocks
  \<open>bs\<close>, none of them a sentinel \<^verbatim>\<open>EOF\<close> or \<^verbatim>\<open>FREE\<close>, and then reads \<^verbatim>\<open>EOF\<close>.
  \<open>walk_of fat head bs\<close>: the loop of \<^verbatim>\<open>free_blocks\<close> started at \<open>head\<close> visits the
  indices \<open>bs\<close>, in this order, and then stops.
\<close>

fun is_chain :: "(nat \<Rightarrow> 16 word) \<Rightarrow> 16 word \<Rightarrow> 16 word list \<Rightarrow> bool" where
  "is_chain fat head [] = (head = FAT_ENTRY_EOF)"
| "is_chain fat head (b # bs) =
     (head = b \<and> b \<noteq> FAT_ENTRY_EOF \<and> b \<noteq> FAT_ENTRY_FREE \<and> is_chain fat (fat (unat b)) bs)"

fun walk_of :: "(nat \<Rightarrow> 16 word) \<Rightarrow> 16 word \<Rightarrow> nat list \<Rightarrow> bool" where
  "walk_of fat head [] = (head = FAT_ENTRY_EOF \<or> head = FAT_ENTRY_FREE)"
| "walk_of fat head (b # bs) =
     (head \<noteq> FAT_ENTRY_EOF \<and> head \<noteq> FAT_ENTRY_FREE \<and> b = unat head
      \<and> walk_of (fat(b := FAT_ENTRY_FREE)) (fat b) bs)"

text \<open>
  \<open>fat_path fat head bs t\<close>: following the FAT from \<open>head\<close> visits the blocks \<open>bs\<close>,
  none of them \<^verbatim>\<open>EOF\<close>, and the next pointer read after them is \<open>t\<close>.
\<close>

fun fat_path :: "(nat \<Rightarrow> 16 word) \<Rightarrow> 16 word \<Rightarrow> 16 word list \<Rightarrow> 16 word \<Rightarrow> bool" where
  "fat_path fat head [] t = (head = t)"
| "fat_path fat head (b # bs) t =
     (head = b \<and> b \<noteq> FAT_ENTRY_EOF \<and> fat_path fat (fat (unat b)) bs t)"

text \<open>
  The bytes of the blocks \<open>bs\<close> of an image, put end to end.
\<close>

definition chain_bytes :: "image \<Rightarrow> 16 word list \<Rightarrow> byte list" where
  "chain_bytes img bs =
     concat (map (\<lambda>b. map (block_bytes (img (seek_block (unat b)))) [0..<BLOCK_SIZE]) bs)"

text \<open>
  The free data blocks whose number is not one of the sentinels \<^verbatim>\<open>EOF\<close> (65534) and
  \<^verbatim>\<open>FREE\<close> (65535).
\<close>

definition free_data_blocks :: "FileSystem \<Rightarrow> nat set" where
  "free_data_blocks fs =
     {i. unat (data_start_block (boot_sector fs)) \<le> i \<and> i < unat (total_blocks (boot_sector fs))
         \<and> i < 65534 \<and> fat_table fs i = FAT_ENTRY_FREE}"

subsection \<open>Example states\<close>

text \<open>
  Concrete states used to run the operations: the boot sector that \<^verbatim>\<open>format_partition\<close>
  writes (with creation time 0), the FAT it writes, and a mounted file system with a
  given FAT over an otherwise zeroed image whose root block is the one that
  \<^verbatim>\<open>write_block\<close> stores from a given directory. \<open>example_entry\<close> is an entry as
  \<^verbatim>\<open>create_file\<close> fills a zeroed slot, with the size and the first block that
  \<^verbatim>\<open>write_file\<close> stores.
\<close>

definition example_boot :: BootSector where
  "example_boot = \<lparr>signature = ''MYFATFS'', total_blocks = 65536, fat_blocks = 128,
     root_dir_block = 129, data_start_block = 130, block_size = 1024, fat_copies = 1,
     volume_label = ''MYVOLUME'', boot_created_time = 0\<rparr>"

definition formatted_fat :: "nat \<Rightarrow> 16 word" where
  "formatted_fat = (\<lambda>i. if i < 130 then FAT_ENTRY_BAD else FAT_ENTRY_FREE)"

definition example_fs :: "(nat \<Rightarrow> 16 word) \<Rightarrow> Directory \<Rightarrow> FileSystem" where
  "example_fs fat dir = \<lparr>disk_file = Some ((\<lambda>n. DataB (\<lambda>i. 0))(129 := DirB (dir_prefix dir))),
     boot_sector = example_boot, fat_table = fat, current_dir_block = 129,
     current_path = ''/''\<rparr>"

definition example_entry :: "string \<Rightarrow> 8 word \<Rightarrow> 32 word \<Rightarrow> 16 word \<Rightarrow> DirectoryEntry" where
  "example_entry name t size' first = \<lparr>filename = strcpy (replicate MAX_FILENAME_SIZE NUL) name,
     file_size = size', first_block = first,
     type = t, created_time = 0, modified_time = 0, attributes = 0\<rparr>"

definition example_dir :: "DirectoryEntry \<Rightarrow> Directory" where
  "example_dir e = \<lparr>entries = (\<lambda>i. zero_entry)(0 := e), entry_count = 1\<rparr>"


text \<open>
  A FAT in which every data block below 65534 is in use and the last two are free, and
  one in which every data block is in use.
\<close>

definition nearly_full_fat :: "nat \<Rightarrow> 16 word" where
  "nearly_full_fat = (\<lambda>i. if i < 130 then FAT_ENTRY_BAD
                          else if i < 65534 then FAT_ENTRY_EOF else FAT_ENTRY_FREE)"

definition full_fat :: "nat \<Rightarrow> 16 word" where
  "full_fat = (\<lambda>i. if i < 130 then FAT_ENTRY_BAD else FAT_ENTRY_EOF)"

text \<open>
  A FAT in which every data block is in use but block 65534.
\<close>

definition last_free_fat :: "nat \<Rightarrow> 16 word" where
  "last_free_fat = (\<lambda>i. if i < 130 then FAT_ENTRY_BAD
                        else if i = 65534 then FAT_ENTRY_FREE else FAT_ENTRY_EOF)"

text \<open>
  A root directory with thirteen empty files, \<^verbatim>\<open>a\<close> to \<^verbatim>\<open>m\<close>, in the slots 0 to 12.
\<close>

definition thirteen_files :: Directory where
  "thirteen_files = \<lparr>entries = (\<lambda>i. zero_entry)
       (0 := example_entry ''a'' TYPE_FILE 0 FAT_ENTRY_EOF,
        1 := example_entry ''b'' TYPE_FILE 0 FAT_ENTRY_EOF,
        2 := example_entry ''c'' TYPE_FILE 0 FAT_ENTRY_EOF,
        3 := example_entry ''d'' TYPE_FILE 0 FAT_ENTRY_EOF,
        4 := example_entry ''e'' TYPE_FILE 0 FAT_ENTRY_EOF,
        5 := example_entry ''f'' TYPE_FILE 0 FAT_ENTRY_EOF,
        6 := example_entry ''g'' TYPE_FILE 0 FAT_ENTRY_EOF,
        7 := example_entry ''h'' TYPE_FILE 0 FAT_ENTRY_EOF,
        8 := example_entry ''i'' TYPE_FILE 0 FAT_ENTRY_EOF,
        9 := example_entry ''j'' TYPE_FILE 0 FAT_ENTRY_EOF,
        10 := example_entry ''k'' TYPE_FILE 0 FAT_ENTRY_EOF,
        11 := example_entry ''l'' TYPE_FILE 0 FAT_ENTRY_EOF,
        12 := example_entry ''m'' TYPE_FILE 0 FAT_ENTRY_EOF),
     entry_count = 13\<rparr>"



section \<open>Properties\<close>

subsection \<open>Scans, the block layer and the flush\<close>


lemmas fat_consts = FAT_ENTRY_FREE_def FAT_ENTRY_EOF_def FAT_ENTRY_BAD_def

lemma first_from_Some:
  "first_from P i hi = Some k \<longleftrightarrow> i \<le> k \<and> k < hi \<and> P k \<and> (\<forall>j. i \<le> j \<and> j < k \<longrightarrow> \<not> P j)"
proof (induction P i hi rule: first_from.induct)
  case (1 P i hi)
  show ?case
  proof (cases "i < hi")
    case False
    then show ?thesis by (subst first_from.simps) auto
  next
    case lt: True
    show ?thesis
    proof (cases "P i")
      case True
      have "first_from P i hi = Some i" using lt True by (subst first_from.simps) simp
      moreover have "(i \<le> k \<and> k < hi \<and> P k \<and> (\<forall>j. i \<le> j \<and> j < k \<longrightarrow> \<not> P j)) \<longleftrightarrow> k = i"
        using lt True by (metis le_neq_implies_less order_refl le_less_linear not_less)
      ultimately show ?thesis by auto
    next
      case False
      have "first_from P i hi = first_from P (Suc i) hi" using lt False by (subst first_from.simps) simp
      moreover have "(i \<le> k \<and> k < hi \<and> P k \<and> (\<forall>j. i \<le> j \<and> j < k \<longrightarrow> \<not> P j))
          \<longleftrightarrow> (Suc i \<le> k \<and> k < hi \<and> P k \<and> (\<forall>j. Suc i \<le> j \<and> j < k \<longrightarrow> \<not> P j))"
        using False by (metis Suc_leD Suc_le_eq le_neq_implies_less not_less_eq_eq)
      ultimately show ?thesis using 1 lt False by simp
    qed
  qed
qed

lemma first_from_None:
  "first_from P i hi = None \<longleftrightarrow> (\<forall>j. i \<le> j \<and> j < hi \<longrightarrow> \<not> P j)"
proof (induction P i hi rule: first_from.induct)
  case (1 P i hi)
  show ?case
  proof (cases "i < hi")
    case False
    then show ?thesis by (subst first_from.simps) auto
  next
    case lt: True
    show ?thesis
    proof (cases "P i")
      case True
      have "first_from P i hi = Some i" using lt True by (subst first_from.simps) simp
      then show ?thesis using lt True by auto
    next
      case False
      have "first_from P i hi = first_from P (Suc i) hi" using lt False by (subst first_from.simps) simp
      moreover have "(\<forall>j. i \<le> j \<and> j < hi \<longrightarrow> \<not> P j) \<longleftrightarrow> (\<forall>j. Suc i \<le> j \<and> j < hi \<longrightarrow> \<not> P j)"
        using False by (metis Suc_leD Suc_le_eq le_neq_implies_less)
      ultimately show ?thesis using 1 lt False by simp
    qed
  qed
qed

lemma seek_block_small: "n < 4194304 \<Longrightarrow> seek_block n = n"
  by (simp add: seek_block_def BLOCK_SIZE_def)

lemma write_block_fields:
  "write_block fs n b = Some fs' \<Longrightarrow>
     boot_sector fs' = boot_sector fs \<and> fat_table fs' = fat_table fs
     \<and> current_dir_block fs' = current_dir_block fs \<and> current_path fs' = current_path fs
     \<and> (\<exists>img. disk_file fs = Some img \<and> disk_file fs' = Some (img(seek_block n := b)))"
  by (auto simp: write_block_def split: option.splits if_splits)

lemma write_fat_fields:
  "boot_sector (write_fat k fs) = boot_sector fs \<and> fat_table (write_fat k fs) = fat_table fs
     \<and> current_dir_block (write_fat k fs) = current_dir_block fs
     \<and> current_path (write_fat k fs) = current_path fs"
proof (induction k)
  case 0
  show ?case by simp
next
  case (Suc k)
  show ?case
  proof (cases "write_block (write_fat k fs) (1 + k) (fat_slice (fat_table (write_fat k fs)) k)")
    case None
    then show ?thesis using Suc by (simp add: Let_def)
  next
    case (Some fs'')
    then show ?thesis using Suc write_block_fields [OF Some] by (simp add: Let_def)
  qed
qed

lemma write_fat_disk:
  "disk_file fs = Some img \<Longrightarrow>
     \<exists>img'. disk_file (write_fat k fs) = Some img'
        \<and> (\<forall>n. (\<forall>j<k. seek_block (1 + j) \<noteq> n) \<longrightarrow> img' n = img n)"
proof (induction k)
  case 0
  then show ?case by simp
next
  case (Suc k)
  then obtain img' where img': "disk_file (write_fat k fs) = Some img'"
      "\<forall>n. (\<forall>j<k. seek_block (1 + j) \<noteq> n) \<longrightarrow> img' n = img n" by blast
  show ?case
  proof (cases "write_block (write_fat k fs) (1 + k) (fat_slice (fat_table (write_fat k fs)) k)")
    case None
    then show ?thesis using img' by (auto simp: Let_def)
  next
    case (Some fs'')
    from write_block_fields [OF Some] img'(1)
    have "disk_file fs'' = Some (img'(seek_block (1 + k) := fat_slice (fat_table (write_fat k fs)) k))"
      by auto
    then show ?thesis using Some img'(2) by (auto simp: Let_def)
  qed
qed

lemma write_fat_unmounted: "disk_file fs = None \<Longrightarrow> write_fat k fs = fs"
  by (induction k) (auto simp: Let_def write_block_def)

subsection \<open>The walk of free_blocks\<close>


lemma free_walk_stop:
  "current_block = FAT_ENTRY_EOF \<or> current_block = FAT_ENTRY_FREE \<Longrightarrow> free_walk fat current_block = fat"
  by (subst free_walk.simps) auto

lemma free_walk_step:
  "current_block \<noteq> FAT_ENTRY_EOF \<Longrightarrow> current_block \<noteq> FAT_ENTRY_FREE \<Longrightarrow>
     free_walk fat current_block
       = free_walk (fat(unat current_block := FAT_ENTRY_FREE)) (fat (unat current_block))"
  by (subst free_walk.simps) simp

lemma free_walk_walk_of:
  "\<exists>bs. walk_of fat head bs \<and> free_walk fat head = (\<lambda>i. if i \<in> set bs then FAT_ENTRY_FREE else fat i)"
proof (induction fat head rule: free_walk.induct)
  case (1 fat cur)
  show ?case
  proof (cases "cur \<noteq> FAT_ENTRY_EOF \<and> cur \<noteq> FAT_ENTRY_FREE")
    case False
    then have "walk_of fat cur []" by auto
    moreover have "free_walk fat cur = fat" using False by (intro free_walk_stop) auto
    ultimately show ?thesis by (intro exI [of _ "[]"]) simp
  next
    case True
    from 1 [OF True] obtain bs where bs:
      "walk_of (fat(unat cur := FAT_ENTRY_FREE)) (fat (unat cur)) bs"
      "free_walk (fat(unat cur := FAT_ENTRY_FREE)) (fat (unat cur))
         = (\<lambda>i. if i \<in> set bs then FAT_ENTRY_FREE else (fat(unat cur := FAT_ENTRY_FREE)) i)"
      by blast
    have "walk_of fat cur (unat cur # bs)" using True bs(1) by simp
    moreover have "free_walk fat cur = (\<lambda>i. if i \<in> set (unat cur # bs) then FAT_ENTRY_FREE else fat i)"
      using True bs(2) by (auto simp: free_walk_step)
    ultimately show ?thesis by blast
  qed
qed

lemma is_chain_unique: "is_chain fat h bs \<Longrightarrow> is_chain fat h bs' \<Longrightarrow> bs = bs'"
proof (induction bs arbitrary: h bs')
  case Nil
  then show ?case by (cases bs') auto
next
  case (Cons b bs)
  then show ?case by (cases bs') auto
qed

lemma is_chain_suffix: "is_chain fat h (xs @ z # zs) \<Longrightarrow> is_chain fat z (z # zs)"
  by (induction xs arbitrary: h) auto

lemma is_chain_distinct: "is_chain fat h bs \<Longrightarrow> distinct bs"
proof (induction bs arbitrary: h)
  case Nil
  show ?case by simp
next
  case (Cons b bs)
  have "b \<notin> set bs"
  proof
    assume "b \<in> set bs"
    then obtain xs ys where split: "bs = xs @ b # ys" by (auto simp: in_set_conv_decomp)
    from Cons.prems have tl: "is_chain fat (fat (unat b)) (xs @ b # ys)" and hb: "h = b"
      by (auto simp: split)
    from is_chain_suffix [OF tl] have "is_chain fat b (b # ys)" .
    moreover from Cons.prems hb have "is_chain fat b (b # bs)" by simp
    ultimately have "b # ys = b # bs" by (rule is_chain_unique)
    then show False using split by simp
  qed
  moreover from Cons have "distinct bs" by auto
  ultimately show ?case by simp
qed

lemma is_chain_upd: "is_chain fat h bs \<Longrightarrow> x \<notin> unat ` set bs \<Longrightarrow> is_chain (fat(x := v)) h bs"
  by (induction bs arbitrary: h) auto

lemma free_walk_chain:
  "is_chain fat h bs \<Longrightarrow>
     free_walk fat h = (\<lambda>i. if i \<in> unat ` set bs then FAT_ENTRY_FREE else fat i)"
proof (induction bs arbitrary: fat h)
  case Nil
  then show ?case by (simp add: free_walk_stop)
next
  case (Cons b bs)
  from Cons.prems have hb: "h = b" "b \<noteq> FAT_ENTRY_EOF" "b \<noteq> FAT_ENTRY_FREE"
    and tl: "is_chain fat (fat (unat b)) bs" by auto
  from is_chain_distinct [OF Cons.prems] have "b \<notin> set bs" by simp
  then have "unat b \<notin> unat ` set bs" using unsigned_word_eqI [where ?'a = nat] by (metis imageE)
  from is_chain_upd [OF tl this]
  have "is_chain (fat(unat b := FAT_ENTRY_FREE)) (fat (unat b)) bs" .
  from Cons.IH [OF this]
  have "free_walk (fat(unat b := FAT_ENTRY_FREE)) (fat (unat b))
          = (\<lambda>i. if i \<in> unat ` set bs then FAT_ENTRY_FREE else (fat(unat b := FAT_ENTRY_FREE)) i)" .
  also have "\<dots> = (\<lambda>i. if i \<in> unat ` set (b # bs) then FAT_ENTRY_FREE else fat i)"
    by (rule ext) simp
  finally show ?case using free_walk_step [of b fat] hb by simp
qed


subsection \<open>What the FAT operations change\<close>

lemma flush_fat_fields:
  "boot_sector (flush_fat fs) = boot_sector fs \<and> fat_table (flush_fat fs) = fat_table fs
     \<and> current_dir_block (flush_fat fs) = current_dir_block fs
     \<and> current_path (flush_fat fs) = current_path fs"
  by (simp add: flush_fat_def write_fat_fields)

lemma flush_fat_disk:
  "disk_file fs = Some img \<Longrightarrow>
     \<exists>img'. disk_file (flush_fat fs) = Some img'
        \<and> (\<forall>n. (\<forall>j < unat (fat_blocks (boot_sector fs)). seek_block (1 + j) \<noteq> n) \<longrightarrow> img' n = img n)"
  unfolding flush_fat_def by (rule write_fat_disk)

lemma free_blocks_fields:
  "boot_sector (free_blocks fs h) = boot_sector fs
     \<and> fat_table (free_blocks fs h) = free_walk (fat_table fs) h
     \<and> current_dir_block (free_blocks fs h) = current_dir_block fs
     \<and> current_path (free_blocks fs h) = current_path fs"
  by (simp add: free_blocks_def flush_fat_fields)

lemma free_blocks_disk:
  "disk_file fs = Some img \<Longrightarrow>
     \<exists>img'. disk_file (free_blocks fs h) = Some img'
        \<and> (\<forall>n. (\<forall>j < unat (fat_blocks (boot_sector fs)). seek_block (1 + j) \<noteq> n) \<longrightarrow> img' n = img n)"
  unfolding free_blocks_def
  using flush_fat_disk [of "fs\<lparr>fat_table := free_walk (fat_table fs) h\<rparr>" img] by simp

lemma allocate_block_Some:
  "first_from (\<lambda>i. fat_table fs i = FAT_ENTRY_FREE) (unat (data_start_block (boot_sector fs)))
      (unat (total_blocks (boot_sector fs))) = Some i \<Longrightarrow>
   fst (allocate_block fs) = of_nat i
     \<and> boot_sector (snd (allocate_block fs)) = boot_sector fs
     \<and> fat_table (snd (allocate_block fs)) = (fat_table fs)(i := FAT_ENTRY_EOF)
     \<and> current_dir_block (snd (allocate_block fs)) = current_dir_block fs
     \<and> current_path (snd (allocate_block fs)) = current_path fs"
  by (simp add: allocate_block_def flush_fat_fields)

lemma allocate_block_None:
  "first_from (\<lambda>i. fat_table fs i = FAT_ENTRY_FREE) (unat (data_start_block (boot_sector fs)))
      (unat (total_blocks (boot_sector fs))) = None \<Longrightarrow>
   allocate_block fs = (FAT_ENTRY_FREE, fs)"
  by (simp add: allocate_block_def)

lemma allocate_block_disk:
  assumes img: "disk_file fs = Some img"
  shows "\<exists>img'. disk_file (snd (allocate_block fs)) = Some img'
        \<and> (\<forall>n. (\<forall>j < unat (fat_blocks (boot_sector fs)). seek_block (1 + j) \<noteq> n) \<longrightarrow> img' n = img n)"
proof (cases "first_from (\<lambda>i. fat_table fs i = FAT_ENTRY_FREE) (unat (data_start_block (boot_sector fs)))
      (unat (total_blocks (boot_sector fs)))")
  case None
  then show ?thesis using img by (simp add: allocate_block_def)
next
  case (Some i)
  then show ?thesis
    using img flush_fat_disk [of "fs\<lparr>fat_table := (fat_table fs)(i := FAT_ENTRY_EOF)\<rparr>" img]
    by (simp add: allocate_block_def)
qed

subsection \<open>The block of a directory\<close>

lemma dir_block_consts:
  "ENTRIES_IN_BLOCK = 12"
  "NAME_BYTES_IN_BLOCK = 16"
  "SIZEOF_DIRECTORY = 10756"
  by (simp_all add: ENTRIES_IN_BLOCK_def NAME_BYTES_IN_BLOCK_def SIZEOF_DIRECTORY_def
        SIZEOF_ENTRY_def BLOCK_SIZE_def MAX_FILES_IN_DIR_def)

lemma overlay_entry_below:
  "i < 12 \<Longrightarrow> entries (dir_overlay dir b) i = whole_entries b ! i"
  by (simp add: dir_overlay_def dir_block_consts)

lemma overlay_entry_12:
  "entries (dir_overlay dir b) 12
     = (entries dir 12)\<lparr>filename := name_bytes b @ drop 16 (filename (entries dir 12))\<rparr>"
  by (simp add: dir_overlay_def dir_block_consts)


lemma prefix_entry:
  "i < 12 \<Longrightarrow> whole_entries (dir_prefix dir) ! i = entries dir i"
  by (simp add: dir_prefix_def dir_block_consts)


lemma overlay_prefix_below:
  "i < 12 \<Longrightarrow> entries (dir_overlay dir' (dir_prefix dir)) i = entries dir i"
  by (simp add: overlay_entry_below prefix_entry)

lemma c_string_append: "NUL \<notin> set name \<Longrightarrow> c_string (name @ NUL # rest) = name"
  by (induction name) (auto simp: c_string_def)

lemma c_string_strcpy: "NUL \<notin> set name \<Longrightarrow> c_string (strcpy dest name) = name"
  by (simp add: strcpy_def c_string_append)

lemma strcpy_first: "name \<noteq> [] \<Longrightarrow> strcpy dest name ! 0 = name ! 0"
  by (cases name) (simp_all add: strcpy_def)


lemma zero_entry_c_string: "c_string (filename zero_entry) = []"
  by (simp add: zero_entry_def c_string_def takeWhile_replicate)

subsection \<open>The example states\<close>

lemma example_fs_fields:
  "boot_sector (example_fs fat dir) = example_boot"
  "fat_table (example_fs fat dir) = fat"
  "current_dir_block (example_fs fat dir) = 129"
  "unat (total_blocks example_boot) = 65536"
  "unat (data_start_block example_boot) = 130"
  "unat (fat_blocks example_boot) = 128"
  by (simp_all add: example_fs_def example_boot_def)

lemma example_fs_read_dir: "read_block (example_fs fat dir) 129 = Some (DirB (dir_prefix dir))"
  by (simp add: read_block_def example_fs_def example_boot_def seek_block_small)

lemma example_dir_entry: "entries (example_dir e) 0 = e"
  by (simp add: example_dir_def)

lemma example_entry_fields:
  "filename (example_entry name t sz first) = strcpy (replicate MAX_FILENAME_SIZE NUL) name"
  "type (example_entry name t sz first) = t"
  "file_size (example_entry name t sz first) = sz"
  "first_block (example_entry name t sz first) = first"
  by (simp_all add: example_entry_def)

lemma example_local_entry:
  "entries (dir_overlay dir_local (block_dir (DirB (dir_prefix (example_dir e))))) 0 = e"
  by (simp add: overlay_prefix_below example_dir_entry)

lemma example_find_file:
  "name \<noteq> [] \<Longrightarrow> NUL \<notin> set name \<Longrightarrow>
     find_file_in_directory (example_fs fat (example_dir (example_entry name t sz first))) 129 name
       find_local = Some 0"
  by (cases name)
     (auto simp: find_file_in_directory_def Let_def example_fs_read_dir first_from_Some
        MAX_FILES_IN_DIR_def overlay_prefix_below example_dir_entry example_entry_fields
        c_string_strcpy strcpy_first)


subsection \<open>Reading back what was written\<close>


lemma read_block_SomeD:
  "read_block fs n = Some b \<Longrightarrow>
     \<exists>img. disk_file fs = Some img \<and> n < unat (total_blocks (boot_sector fs)) \<and> b = img (seek_block n)"
  by (auto simp: read_block_def split: option.splits if_splits)

lemma write_block_Some:
  "disk_file fs = Some img \<Longrightarrow> n < unat (total_blocks (boot_sector fs)) \<Longrightarrow>
     write_block fs n b = Some (fs\<lparr>disk_file := Some (img(seek_block n := b))\<rparr>)"
  by (simp add: write_block_def)

lemma read_after_write:
  "write_block fs n b = Some fs' \<Longrightarrow> read_block fs' n = Some b"
  by (auto simp: write_block_def read_block_def split: option.splits if_splits)

lemma find_file_None:
  "read_block fs n = Some b \<Longrightarrow>
     find_file_in_directory fs n name dir_local = None
       \<longleftrightarrow> (\<forall>i < MAX_FILES_IN_DIR.
              filename (entries (dir_overlay dir_local (block_dir b)) i) ! 0 = NUL
            \<or> c_string (filename (entries (dir_overlay dir_local (block_dir b)) i)) \<noteq> name)"
  by (auto simp: find_file_in_directory_def Let_def first_from_None)

text \<open>
  A lookup that stops at a slot held whole by the block does not depend on what the
  local held.
\<close>

lemma find_file_below:
  assumes "find_file_in_directory fs n name dir_local = Some idx" and "idx < 12"
  shows "find_file_in_directory fs n name dir_local' = Some idx"
proof (cases "read_block fs n")
  case None
  with assms show ?thesis by (simp add: find_file_in_directory_def)
next
  case (Some b)
  have same: "entries (dir_overlay dir_local' (block_dir b)) j
                = entries (dir_overlay dir_local (block_dir b)) j" if "j \<le> idx" for j
    using that assms(2) by (simp add: overlay_entry_below)
  from assms(1) Some show ?thesis
    by (auto simp: find_file_in_directory_def Let_def first_from_Some same)
qed


subsection \<open>The image written by format_partition\<close>











subsection \<open>Truncating to zero bytes\<close>

lemma truncate_file_to_zero:
  assumes rd: "read_block fs (unat (current_dir_block fs)) = Some b"
    and fnd: "find_file_in_directory fs (unat (current_dir_block fs)) name find_local = Some idx"
    and ty: "type (entries (dir_overlay dir_local (block_dir b)) idx) = TYPE_FILE"
    and sz: "file_size (entries (dir_overlay dir_local (block_dir b)) idx) \<noteq> 0"
    and fb: "first_block (entries (dir_overlay dir_local (block_dir b)) idx) \<noteq> FAT_ENTRY_EOF"
  shows "\<exists>fs'. truncate_file fs name 0 now dir_local find_local = (Inr (), fs')
          \<and> fat_table fs' = free_walk (fat_table fs) (first_block (entries (dir_overlay dir_local (block_dir b)) idx))
          \<and> current_dir_block fs' = current_dir_block fs
          \<and> read_block fs' (unat (current_dir_block fs))
               = Some (DirB (dir_prefix ((dir_overlay dir_local (block_dir b))\<lparr>entries := (entries (dir_overlay dir_local (block_dir b)))
                       (idx := (entries (dir_overlay dir_local (block_dir b)) idx)\<lparr>file_size := 0, modified_time := now\<rparr>)\<rparr>)))"
proof -
  let ?e = "entries (dir_overlay dir_local (block_dir b)) idx"
  let ?cur = "unat (current_dir_block fs)"
  let ?fs1 = "free_blocks fs (first_block ?e)"
  let ?dir' = "(dir_overlay dir_local (block_dir b))\<lparr>entries := (entries (dir_overlay dir_local (block_dir b)))
                       (idx := ?e\<lparr>file_size := 0, modified_time := now\<rparr>)\<rparr>"
  from read_block_SomeD [OF rd] obtain img where img: "disk_file fs = Some img"
    and lt: "?cur < unat (total_blocks (boot_sector fs))" by blast
  obtain img1 where img1: "disk_file ?fs1 = Some img1"
    using free_blocks_disk [OF img, of "first_block ?e"] by blast
  let ?fs2 = "?fs1\<lparr>disk_file := Some (img1(seek_block ?cur := DirB (dir_prefix ?dir')))\<rparr>"
  have wr: "write_block ?fs1 (unat (current_dir_block ?fs1)) (DirB (dir_prefix ?dir')) = Some ?fs2"
    using write_block_Some [OF img1, of ?cur "DirB (dir_prefix ?dir')"] lt by (simp add: free_blocks_fields)
  have pos: "0 < file_size ?e" using sz by (simp add: word_greater_zero_iff)
  have "truncate_file fs name 0 now dir_local find_local = (Inr (), ?fs2)"
    using rd fnd ty sz fb wr pos by (simp add: truncate_file_def Let_def BLOCK_SIZE_def)
  moreover have "read_block ?fs2 ?cur = Some (DirB (dir_prefix ?dir'))"
    using read_after_write [OF wr] by (simp add: free_blocks_fields)
  ultimately show ?thesis by (simp add: free_blocks_fields)
qed


subsection \<open>The loop of read_file along a path of the FAT\<close>

lemma fat_consts_neq [simp]:
  "FAT_ENTRY_EOF \<noteq> FAT_ENTRY_FREE" "FAT_ENTRY_FREE \<noteq> FAT_ENTRY_EOF"
  by (simp_all add: fat_consts)

lemma read_loop_stop:
  "current_block = FAT_ENTRY_EOF \<or> n = 0 \<Longrightarrow> read_loop fs current_block n = Inr []"
  by (subst read_loop.simps) auto

lemma read_loop_step:
  "current_block \<noteq> FAT_ENTRY_EOF \<Longrightarrow> 0 < n \<Longrightarrow> read_block fs (unat current_block) = Some buffer \<Longrightarrow>
     read_loop fs current_block n
       = (case read_loop fs (fat_table fs (unat current_block)) (n - min n BLOCK_SIZE) of
            Inl e \<Rightarrow> Inl e
          | Inr out \<Rightarrow> Inr (map (block_bytes buffer) [0..<min n BLOCK_SIZE] @ out))"
  by (subst read_loop.simps) (auto simp: Let_def min_def split: sum.splits)

lemma read_loop_path:
  assumes img: "disk_file fs = Some img"
  shows "fat_path (fat_table fs) h bs t \<Longrightarrow>
     \<forall>b \<in> set bs. unat b < unat (total_blocks (boot_sector fs)) \<Longrightarrow>
     t = FAT_ENTRY_EOF \<or> n \<le> BLOCK_SIZE * length bs \<Longrightarrow>
     read_loop fs h n
       = Inr (take n (concat (map (\<lambda>b. map (block_bytes (img (seek_block (unat b)))) [0..<BLOCK_SIZE]) bs)))"
proof (induction bs arbitrary: h n)
  case Nil
  then show ?case by (auto simp: read_loop_stop)
next
  case (Cons b bs)
  from Cons.prems(1) have hb: "h = b" "b \<noteq> FAT_ENTRY_EOF"
    and tl: "fat_path (fat_table fs) (fat_table fs (unat b)) bs t" by auto
  show ?case
  proof (cases "n = 0")
    case True
    then show ?thesis by (simp add: read_loop_stop)
  next
    case False
    then have pos: "0 < n" by simp
    have rb: "read_block fs (unat b) = Some (img (seek_block (unat b)))"
      using img Cons.prems(2) by (simp add: read_block_def)
    have rest: "t = FAT_ENTRY_EOF \<or> n - min n BLOCK_SIZE \<le> BLOCK_SIZE * length bs"
      using Cons.prems(3) by (auto simp: min_def)
    have inr: "\<forall>b \<in> set bs. unat b < unat (total_blocks (boot_sector fs))"
      using Cons.prems(2) by simp
    have ih: "read_loop fs (fat_table fs (unat b)) (n - min n BLOCK_SIZE)
       = Inr (take (n - min n BLOCK_SIZE)
           (concat (map (\<lambda>b. map (block_bytes (img (seek_block (unat b)))) [0..<BLOCK_SIZE]) bs)))"
      by (rule Cons.IH [OF tl inr rest])
    have tk: "take n (map (block_bytes (img (seek_block (unat b)))) [0..<BLOCK_SIZE])
                = map (block_bytes (img (seek_block (unat b)))) [0..<min n BLOCK_SIZE]"
      by (simp add: take_map min_def)
    have mn: "n - min n BLOCK_SIZE = n - BLOCK_SIZE" by (simp add: min_def)
    show ?thesis
      unfolding hb(1) read_loop_step [OF hb(2) pos rb] ih
      by (simp add: tk mn)
  qed
qed

lemma example_fs_disk:
  "disk_file (example_fs fat dir) = Some ((\<lambda>n. DataB (\<lambda>i. 0))(129 := DirB (dir_prefix dir)))"
  by (simp add: example_fs_def)

lemma example_read_loop:
  assumes "fat_path fat h bs t" and "\<forall>b \<in> set bs. unat b \<noteq> 129"
    and "t = FAT_ENTRY_EOF \<or> n \<le> BLOCK_SIZE * length bs"
  shows "read_loop (example_fs fat dir) h n = Inr (replicate (min n (BLOCK_SIZE * length bs)) 0)"
proof -
  have lt: "\<forall>b \<in> set bs. unat b < unat (total_blocks (boot_sector (example_fs fat dir)))"
  proof
    fix b :: "16 word"
    show "unat b < unat (total_blocks (boot_sector (example_fs fat dir)))"
      using unsigned_less [of b, where ?'a = nat] by (simp add: example_fs_fields)
  qed
  have blk: "map (\<lambda>b. map (block_bytes (((\<lambda>n. DataB (\<lambda>i. 0))(129 := DirB (dir_prefix dir))) (seek_block (unat b))))
                 [0..<BLOCK_SIZE]) bs = replicate (length bs) (replicate BLOCK_SIZE (0 :: byte))"
  proof (rule nth_equalityI)
    show "length (map (\<lambda>b. map (block_bytes (((\<lambda>n. DataB (\<lambda>i. 0))(129 := DirB (dir_prefix dir))) (seek_block (unat b))))
                 [0..<BLOCK_SIZE]) bs) = length (replicate (length bs) (replicate BLOCK_SIZE (0 :: byte)))"
      by simp
  next
    fix i assume "i < length (map (\<lambda>b. map (block_bytes (((\<lambda>n. DataB (\<lambda>i. 0))(129 := DirB (dir_prefix dir))) (seek_block (unat b))))
                 [0..<BLOCK_SIZE]) bs)"
    then have i: "i < length bs" by simp
    then have ne: "unat (bs ! i) \<noteq> 129" using assms(2) by simp
    have "unat (bs ! i) < 4194304" using unsigned_less [of "bs ! i", where ?'a = nat] by simp
    then have "seek_block (unat (bs ! i)) \<noteq> 129" using ne by (simp add: seek_block_small)
    then show "map (\<lambda>b. map (block_bytes (((\<lambda>n. DataB (\<lambda>i. 0))(129 := DirB (dir_prefix dir))) (seek_block (unat b))))
                 [0..<BLOCK_SIZE]) bs ! i = replicate (length bs) (replicate BLOCK_SIZE (0 :: byte)) ! i"
      using i by (simp add: map_replicate_const)
  qed
  have cc: "concat (replicate k (replicate m (0 :: byte))) = replicate (m * k) 0" for k m
    by (induction k) (simp_all add: replicate_add)
  have path': "fat_path (fat_table (example_fs fat dir)) h bs t"
    using assms(1) by (simp add: example_fs_fields)
  show ?thesis
    unfolding read_loop_path [OF example_fs_disk path' lt assms(3)] blk cc
    by (simp add: min.commute)
qed


subsection \<open>Blocks that an operation leaves alone; the steps of the loop of write_file\<close>


lemma read_block_fat_table_upd [simp]: "read_block (fs\<lparr>fat_table := f\<rparr>) n = read_block fs n"
  by (simp add: read_block_def split: option.splits)

lemma write_block_read_other:
  "write_block fs m b = Some fs' \<Longrightarrow> seek_block m \<noteq> seek_block n \<Longrightarrow> read_block fs' n = read_block fs n"
  by (auto simp: write_block_def read_block_def split: option.splits if_splits)

lemma flush_fat_read:
  assumes "\<forall>j < unat (fat_blocks (boot_sector fs)). seek_block (1 + j) \<noteq> seek_block n"
  shows "read_block (flush_fat fs) n = read_block fs n"
proof (cases "disk_file fs")
  case None
  then show ?thesis by (simp add: flush_fat_def write_fat_unmounted)
next
  case (Some img)
  from flush_fat_disk [OF Some] assms obtain img' where
    "disk_file (flush_fat fs) = Some img'" "img' (seek_block n) = img (seek_block n)" by blast
  then show ?thesis using Some by (simp add: read_block_def flush_fat_fields)
qed

lemma free_blocks_read:
  assumes "\<forall>j < unat (fat_blocks (boot_sector fs)). seek_block (1 + j) \<noteq> seek_block n"
  shows "read_block (free_blocks fs h) n = read_block fs n"
  unfolding free_blocks_def using flush_fat_read [of "fs\<lparr>fat_table := free_walk (fat_table fs) h\<rparr>" n] assms
  by simp

lemma allocate_block_fields:
  "boot_sector (snd (allocate_block fs)) = boot_sector fs
     \<and> current_dir_block (snd (allocate_block fs)) = current_dir_block fs"
  by (simp add: allocate_block_def flush_fat_fields split: option.splits)

lemma allocate_block_read:
  assumes "\<forall>j < unat (fat_blocks (boot_sector fs)). seek_block (1 + j) \<noteq> seek_block n"
  shows "read_block (snd (allocate_block fs)) n = read_block fs n"
proof (cases "first_from (\<lambda>i. fat_table fs i = FAT_ENTRY_FREE) (unat (data_start_block (boot_sector fs)))
      (unat (total_blocks (boot_sector fs)))")
  case None
  then show ?thesis by (simp add: allocate_block_def)
next
  case (Some i)
  then show ?thesis
    using flush_fat_read [of "fs\<lparr>fat_table := (fat_table fs)(i := FAT_ENTRY_EOF)\<rparr>" n] assms
    by (simp add: allocate_block_def)
qed

lemma write_loop_done: "write_loop fs d 0 first prev = (Inr (first, prev), fs)"
  by (subst write_loop.simps) simp

lemma write_loop_no_space:
  "0 < n \<Longrightarrow> allocate_block fs = (FAT_ENTRY_FREE, fs1) \<Longrightarrow>
     write_loop fs d n first prev
       = (Inl OutOfSpace, if first \<noteq> FAT_ENTRY_EOF then free_blocks fs1 first else fs1)"
  by (subst write_loop.simps) simp

lemma write_loop_io_error:
  "0 < n \<Longrightarrow> allocate_block fs = (b, fs1) \<Longrightarrow> b \<noteq> FAT_ENTRY_FREE \<Longrightarrow>
   write_block (if prev \<noteq> FAT_ENTRY_EOF then fs1\<lparr>fat_table := (fat_table fs1)(unat prev := b)\<rparr> else fs1)
      (unat b) (DataB (\<lambda>i. if i < min n BLOCK_SIZE then d ! i else 0)) = None \<Longrightarrow>
   write_loop fs d n first prev
     = (Inl IoError,
        free_blocks (if prev \<noteq> FAT_ENTRY_EOF then fs1\<lparr>fat_table := (fat_table fs1)(unat prev := b)\<rparr> else fs1)
          (if first = FAT_ENTRY_EOF then b else first))"
  by (subst write_loop.simps) (auto simp: Let_def min_def)

lemma write_loop_next:
  "0 < n \<Longrightarrow> allocate_block fs = (b, fs1) \<Longrightarrow> b \<noteq> FAT_ENTRY_FREE \<Longrightarrow>
   write_block (if prev \<noteq> FAT_ENTRY_EOF then fs1\<lparr>fat_table := (fat_table fs1)(unat prev := b)\<rparr> else fs1)
      (unat b) (DataB (\<lambda>i. if i < min n BLOCK_SIZE then d ! i else 0)) = Some fs3 \<Longrightarrow>
   write_loop fs d n first prev
     = write_loop fs3 (drop (min n BLOCK_SIZE) d) (n - min n BLOCK_SIZE)
         (if first = FAT_ENTRY_EOF then b else first) b"
  by (subst write_loop.simps) (auto simp: Let_def min_def)

lemma find_file_first_slot:
  "read_block fs n = Some (DirB d) \<Longrightarrow> c_string (filename (whole_entries d ! 0)) = name \<Longrightarrow>
     filename (whole_entries d ! 0) ! 0 \<noteq> NUL \<Longrightarrow>
     find_file_in_directory fs n name dir_local = Some 0"
  by (simp add: find_file_in_directory_def Let_def first_from_Some MAX_FILES_IN_DIR_def
        overlay_entry_below)

lemma example_geometry:
  "boot_sector fs = example_boot \<Longrightarrow>
     \<forall>j < unat (fat_blocks (boot_sector fs)). seek_block (1 + j) \<noteq> seek_block 129"
  by (simp add: example_boot_def seek_block_small)


subsection \<open>The loop of write_file when it runs out of space\<close>


lemma is_chain_EOF: "is_chain fat FAT_ENTRY_EOF ch \<Longrightarrow> ch = []"
  by (cases ch) auto

lemma is_chain_elems: "is_chain fat h ch \<Longrightarrow> c \<in> set ch \<Longrightarrow> c \<noteq> FAT_ENTRY_EOF \<and> c \<noteq> FAT_ENTRY_FREE"
  by (induction ch arbitrary: h) auto

lemma is_chain_entry_not_free:
  "is_chain fat h ch \<Longrightarrow> c \<in> set ch \<Longrightarrow> fat (unat c) \<noteq> FAT_ENTRY_FREE"
proof (induction ch arbitrary: h)
  case Nil
  then show ?case by simp
next
  case (Cons b bs)
  show ?case
  proof (cases "c = b")
    case True
    from Cons.prems(1) have "is_chain fat (fat (unat b)) bs" by simp
    then have "fat (unat b) \<noteq> FAT_ENTRY_FREE" by (cases bs) auto
    then show ?thesis using True by simp
  next
    case False
    then show ?thesis using Cons by auto
  qed
qed

lemma is_chain_last: "is_chain fat h ch \<Longrightarrow> ch \<noteq> [] \<Longrightarrow> fat (unat (last ch)) = FAT_ENTRY_EOF"
proof (induction ch arbitrary: h)
  case Nil
  then show ?case by simp
next
  case (Cons b bs)
  then show ?case by (cases bs) auto
qed

lemma unat_inj16: "unat (a :: 16 word) = unat b \<longleftrightarrow> a = b"
  by (rule word_unat_eq_iff [symmetric])

lemma is_chain_snoc:
  "is_chain fat h ch \<Longrightarrow> ch \<noteq> [] \<Longrightarrow> b \<notin> set ch \<Longrightarrow> b \<noteq> FAT_ENTRY_EOF \<Longrightarrow> b \<noteq> FAT_ENTRY_FREE \<Longrightarrow>
     is_chain (fat(unat b := FAT_ENTRY_EOF, unat (last ch) := b)) h (ch @ [b])"
proof (induction ch arbitrary: h)
  case Nil
  then show ?case by simp
next
  case (Cons c cs)
  from Cons.prems have hc: "h = c" "c \<noteq> FAT_ENTRY_EOF" "c \<noteq> FAT_ENTRY_FREE"
    and tl: "is_chain fat (fat (unat c)) cs" and cb: "c \<noteq> b" "b \<notin> set cs" by auto
  show ?case
  proof (cases "cs = []")
    case True
    then show ?thesis using hc cb Cons.prems(4,5) tl by (simp add: unat_inj16)
  next
    case False
    from is_chain_distinct [OF Cons.prems(1)] have "c \<notin> set cs" by simp
    then have "c \<noteq> last cs" using False last_in_set by metis
    then have keep: "(fat(unat b := FAT_ENTRY_EOF, unat (last cs) := b)) (unat c) = fat (unat c)"
      using cb by (simp add: unat_inj16)
    from Cons.IH [OF tl False cb(2) Cons.prems(4,5)]
    have "is_chain (fat(unat b := FAT_ENTRY_EOF, unat (last cs) := b)) (fat (unat c)) (cs @ [b])" .
    then have "is_chain (fat(unat b := FAT_ENTRY_EOF, unat (last cs) := b))
                 ((fat(unat b := FAT_ENTRY_EOF, unat (last cs) := b)) (unat c)) (cs @ [b])"
      by (simp only: keep)
    then have "is_chain (fat(unat b := FAT_ENTRY_EOF, unat (last cs) := b)) h ((c # cs) @ [b])"
      using hc by (simp only: append_Cons is_chain.simps simp_thms)
    moreover have "last (c # cs) = last cs" using False by simp
    ultimately show ?thesis by (simp only:)
  qed
qed

lemma of_nat_16_unat: "i < 65536 \<Longrightarrow> unat (of_nat i :: 16 word) = i"
  by (simp add: unat_of_nat)

lemma allocate_block_cases:
  assumes tot: "unat (total_blocks (boot_sector fs)) \<le> MAX_BLOCKS"
  obtains (full) "allocate_block fs = (FAT_ENTRY_FREE, fs)"
  | (last_block) fs1 where "allocate_block fs = (FAT_ENTRY_FREE, fs1)"
      "fat_table fs1 = (fat_table fs)(65535 := FAT_ENTRY_EOF)" "boot_sector fs1 = boot_sector fs"
  | (ok) i b fs1 where "allocate_block fs = (b, fs1)" "b \<noteq> FAT_ENTRY_FREE" "unat b = i" "i < 65535"
      "unat (data_start_block (boot_sector fs)) \<le> i" "i < unat (total_blocks (boot_sector fs))"
      "fat_table fs i = FAT_ENTRY_FREE"
      "\<forall>j. unat (data_start_block (boot_sector fs)) \<le> j \<and> j < i \<longrightarrow> fat_table fs j \<noteq> FAT_ENTRY_FREE"
      "fat_table fs1 = (fat_table fs)(i := FAT_ENTRY_EOF)" "boot_sector fs1 = boot_sector fs"
proof (cases "first_from (\<lambda>i. fat_table fs i = FAT_ENTRY_FREE) (unat (data_start_block (boot_sector fs)))
      (unat (total_blocks (boot_sector fs)))")
  case None
  then show ?thesis using full by (simp add: allocate_block_None)
next
  case (Some i)
  from Some have i: "unat (data_start_block (boot_sector fs)) \<le> i" "i < unat (total_blocks (boot_sector fs))"
     "fat_table fs i = FAT_ENTRY_FREE"
     "\<forall>j. unat (data_start_block (boot_sector fs)) \<le> j \<and> j < i \<longrightarrow> fat_table fs j \<noteq> FAT_ENTRY_FREE"
    by (simp_all add: first_from_Some)
  from i(2) tot have lt: "i < 65536" by (simp add: MAX_BLOCKS_def TOTAL_DISK_SIZE_def BLOCK_SIZE_def)
  from allocate_block_Some [OF Some]
  have a: "allocate_block fs = (of_nat i, snd (allocate_block fs))"
    "fat_table (snd (allocate_block fs)) = (fat_table fs)(i := FAT_ENTRY_EOF)"
    "boot_sector (snd (allocate_block fs)) = boot_sector fs"
    by (simp_all add: prod_eq_iff)
  show ?thesis
  proof (cases "i = 65535")
    case True
    then have "(of_nat i :: 16 word) = FAT_ENTRY_FREE" by (simp add: fat_consts)
    then show ?thesis using last_block [of "snd (allocate_block fs)"] a True by simp
  next
    case False
    then have "unat (of_nat i :: 16 word) \<noteq> unat FAT_ENTRY_FREE"
      using lt by (simp add: of_nat_16_unat fat_consts)
    then have "(of_nat i :: 16 word) \<noteq> FAT_ENTRY_FREE" by auto
    then show ?thesis
      using ok [of "of_nat i" "snd (allocate_block fs)" i] a i lt False by (simp add: of_nat_16_unat)
  qed
qed

lemma unat_sentinels: "unat FAT_ENTRY_EOF = 65534" "unat FAT_ENTRY_FREE = 65535"
  by (simp_all add: fat_consts)

lemma write_loop_out_of_space:
  "write_loop fs d n first prev = (Inl OutOfSpace, fs') \<Longrightarrow>
   unat (total_blocks (boot_sector fs)) \<le> MAX_BLOCKS \<Longrightarrow>
   is_chain (fat_table fs) first ch \<Longrightarrow>
   (prev \<noteq> FAT_ENTRY_EOF \<longrightarrow> ch \<noteq> [] \<and> prev = last ch) \<Longrightarrow>
   (prev = FAT_ENTRY_EOF \<and> first \<noteq> FAT_ENTRY_EOF \<longrightarrow>
      (\<forall>i. unat (data_start_block (boot_sector fs)) \<le> i \<and> i < unat (total_blocks (boot_sector fs))
            \<and> i < 65535 \<longrightarrow> fat_table fs i \<noteq> FAT_ENTRY_FREE)) \<Longrightarrow>
   fat_table fs x = FAT_ENTRY_FREE \<or> x \<in> unat ` set ch \<Longrightarrow> x < 65534 \<Longrightarrow>
   fat_table fs' x = FAT_ENTRY_FREE"
proof (induction n arbitrary: fs d first prev ch rule: less_induct)
  case (less n)
  note res = less.prems(1) and tot = less.prems(2) and chain = less.prems(3)
    and pv = less.prems(4) and stuck = less.prems(5) and xin = less.prems(6) and xlt = less.prems(7)
  have npos: "0 < n"
  proof (rule ccontr)
    assume "\<not> 0 < n"
    then show False using res by (simp add: write_loop_done)
  qed
  have ch_idx: "unat c \<noteq> 65535 \<and> unat c \<noteq> 65534" if "c \<in> set ch" for c
    using is_chain_elems [OF chain that] unat_inj16 [of c FAT_ENTRY_EOF] unat_inj16 [of c FAT_ENTRY_FREE]
    by (simp add: unat_sentinels)
  have freed: "free_walk fat1 first x = FAT_ENTRY_FREE"
    if "is_chain fat1 first ch" and "fat1 x = fat_table fs x" for fat1
    using free_walk_chain [OF that(1)] xin that(2) by auto
  from tot show ?case
  proof (cases rule: allocate_block_cases)
    case full
    from write_loop_no_space [OF npos full] res
    have fs': "fs' = (if first \<noteq> FAT_ENTRY_EOF then free_blocks fs first else fs)" by simp
    show ?thesis
    proof (cases "first = FAT_ENTRY_EOF")
      case True
      with chain have "ch = []" by (simp add: is_chain_EOF)
      then show ?thesis using fs' True xin by simp
    next
      case False
      then show ?thesis using fs' freed [OF chain] by (simp add: free_blocks_fields)
    qed
  next
    case (last_block fs1)
    from write_loop_no_space [OF npos last_block(1)] res
    have fs': "fs' = (if first \<noteq> FAT_ENTRY_EOF then free_blocks fs1 first else fs1)" by simp
    have same: "fat_table fs1 x = fat_table fs x" using last_block(2) xlt by simp
    have "65535 \<notin> unat ` set ch" using ch_idx by auto
    then have chain1: "is_chain (fat_table fs1) first ch"
      unfolding last_block(2) by (rule is_chain_upd [OF chain])
    show ?thesis
    proof (cases "first = FAT_ENTRY_EOF")
      case True
      with chain have "ch = []" by (simp add: is_chain_EOF)
      then show ?thesis using fs' True xin same by simp
    next
      case False
      then show ?thesis using fs' freed [OF chain1 same] by (simp add: free_blocks_fields)
    qed
  next
    case (ok i b fs1)
    let ?fs2 = "if prev \<noteq> FAT_ENTRY_EOF
                then fs1\<lparr>fat_table := (fat_table fs1)(unat prev := b)\<rparr> else fs1"
    let ?buf = "DataB (\<lambda>k. if k < min n BLOCK_SIZE then d ! k else 0)"
    let ?first' = "if first = FAT_ENTRY_EOF then b else first"
    show ?thesis
    proof (cases "write_block ?fs2 (unat b) ?buf")
      case None
      from write_loop_io_error [OF npos ok(1,2) None, of first] res show ?thesis by simp
    next
      case (Some fs3)
      from write_block_fields [OF Some]
      have fat3: "fat_table fs3 = fat_table ?fs2" and boot3: "boot_sector fs3 = boot_sector fs"
        using ok(10) by auto
      from write_loop_next [OF npos ok(1,2) Some] res
      have rec: "write_loop fs3 (drop (min n BLOCK_SIZE) d) (n - min n BLOCK_SIZE) ?first' b
                   = (Inl OutOfSpace, fs')" by simp
      have dec: "n - min n BLOCK_SIZE < n" using npos by (simp add: BLOCK_SIZE_def min_def)
      have tot3: "unat (total_blocks (boot_sector fs3)) \<le> MAX_BLOCKS" using tot boot3 by simp
      have i_not_ch: "i \<notin> unat ` set ch"
        using is_chain_entry_not_free [OF chain] ok(7) by auto
      then have b_not_ch: "b \<notin> set ch" using ok(3) by auto
      consider (A1) "prev \<noteq> FAT_ENTRY_EOF" "b \<noteq> FAT_ENTRY_EOF"
        | (A2) "prev \<noteq> FAT_ENTRY_EOF" "b = FAT_ENTRY_EOF"
        | (B) "prev = FAT_ENTRY_EOF" "first = FAT_ENTRY_EOF"
        | (C) "prev = FAT_ENTRY_EOF" "first \<noteq> FAT_ENTRY_EOF" by blast
      then show ?thesis
      proof cases
        case A1
        from pv A1(1) have ne: "ch \<noteq> []" and pl: "prev = last ch" by auto
        from ne chain have fne: "first \<noteq> FAT_ENTRY_EOF" by (cases ch) auto
        have f3: "fat_table fs3 = (fat_table fs)(unat b := FAT_ENTRY_EOF, unat (last ch) := b)"
          using fat3 A1(1) ok(9) ok(3) pl by simp
        have chain3: "is_chain (fat_table fs3) ?first' (ch @ [b])"
          unfolding f3 using is_chain_snoc [OF chain ne b_not_ch A1(2) ok(2)] fne by simp
        have pv3: "b \<noteq> FAT_ENTRY_EOF \<longrightarrow> ch @ [b] \<noteq> [] \<and> b = last (ch @ [b])" by simp
        have stuck3: "b = FAT_ENTRY_EOF \<and> ?first' \<noteq> FAT_ENTRY_EOF \<longrightarrow>
            (\<forall>i. unat (data_start_block (boot_sector fs3)) \<le> i \<and> i < unat (total_blocks (boot_sector fs3))
              \<and> i < 65535 \<longrightarrow> fat_table fs3 i \<noteq> FAT_ENTRY_FREE)" using A1(2) by simp
        have lastEOF: "fat_table fs (unat (last ch)) = FAT_ENTRY_EOF" by (rule is_chain_last [OF chain ne])
        have xin3: "fat_table fs3 x = FAT_ENTRY_FREE \<or> x \<in> unat ` set (ch @ [b])"
        proof (cases "x \<in> unat ` set ch \<or> x = i")
          case True
          then show ?thesis using ok(3) by auto
        next
          case False
          with xin have fx: "fat_table fs x = FAT_ENTRY_FREE" by simp
          with lastEOF have "x \<noteq> unat (last ch)" by auto
          then show ?thesis using False fx f3 ok(3) by simp
        qed
        show ?thesis by (rule less.IH [OF dec rec tot3 chain3 pv3 stuck3 xin3 xlt])
      next
        case A2
        from pv A2(1) have ne: "ch \<noteq> []" and pl: "prev = last ch" by auto
        have i_eq: "i = 65534" using ok(3) A2(2) by (simp add: unat_sentinels)
        have lastEOF: "fat_table fs (unat (last ch)) = FAT_ENTRY_EOF" by (rule is_chain_last [OF chain ne])
        have "last ch \<in> set ch" using ne by simp
        then have li: "unat (last ch) \<noteq> 65534" using ch_idx by blast
        have f3: "fat_table fs3 = (fat_table fs)(65534 := FAT_ENTRY_EOF)"
        proof (rule ext)
          fix k show "fat_table fs3 k = ((fat_table fs)(65534 := FAT_ENTRY_EOF)) k"
            using fat3 A2 ok(9) pl i_eq lastEOF by simp
        qed
        have "65534 \<notin> unat ` set ch" using ch_idx by auto
        then have "is_chain (fat_table fs3) first ch"
          unfolding f3 by (rule is_chain_upd [OF chain])
        moreover from ne chain have "first \<noteq> FAT_ENTRY_EOF" by (cases ch) auto
        ultimately have chain3: "is_chain (fat_table fs3) ?first' ch" by simp
        have pv3: "b \<noteq> FAT_ENTRY_EOF \<longrightarrow> ch \<noteq> [] \<and> b = last ch" using A2(2) by simp
        have stuck3: "b = FAT_ENTRY_EOF \<and> ?first' \<noteq> FAT_ENTRY_EOF \<longrightarrow>
            (\<forall>i. unat (data_start_block (boot_sector fs3)) \<le> i \<and> i < unat (total_blocks (boot_sector fs3))
              \<and> i < 65535 \<longrightarrow> fat_table fs3 i \<noteq> FAT_ENTRY_FREE)"
          using ok(8) i_eq by (auto simp: f3 boot3)
        have xin3: "fat_table fs3 x = FAT_ENTRY_FREE \<or> x \<in> unat ` set ch"
          using xin xlt by (auto simp: f3)
        show ?thesis by (rule less.IH [OF dec rec tot3 chain3 pv3 stuck3 xin3 xlt])
      next
        case B
        from chain B(2) have ch: "ch = []" by (simp add: is_chain_EOF)
        have f3: "fat_table fs3 = (fat_table fs)(i := FAT_ENTRY_EOF)" using fat3 B(1) ok(9) by simp
        show ?thesis
        proof (cases "b = FAT_ENTRY_EOF")
          case True
          have chain3: "is_chain (fat_table fs3) ?first' []" using B(2) True by simp
          have pv3: "b \<noteq> FAT_ENTRY_EOF \<longrightarrow> [] \<noteq> [] \<and> b = last []" using True by simp
          have stuck3: "b = FAT_ENTRY_EOF \<and> ?first' \<noteq> FAT_ENTRY_EOF \<longrightarrow>
            (\<forall>i. unat (data_start_block (boot_sector fs3)) \<le> i \<and> i < unat (total_blocks (boot_sector fs3))
              \<and> i < 65535 \<longrightarrow> fat_table fs3 i \<noteq> FAT_ENTRY_FREE)" using B(2) True by simp
          have "i = 65534" using ok(3) True by (simp add: unat_sentinels)
          then have xin3: "fat_table fs3 x = FAT_ENTRY_FREE \<or> x \<in> unat ` set []"
            using xin xlt ch by (simp add: f3)
          show ?thesis by (rule less.IH [OF dec rec tot3 chain3 pv3 stuck3 xin3 xlt])
        next
          case False
          have chain3: "is_chain (fat_table fs3) ?first' [b]"
            using B(2) False ok(2,3) by (simp add: f3)
          have pv3: "b \<noteq> FAT_ENTRY_EOF \<longrightarrow> [b] \<noteq> [] \<and> b = last [b]" by simp
          have stuck3: "b = FAT_ENTRY_EOF \<and> ?first' \<noteq> FAT_ENTRY_EOF \<longrightarrow>
            (\<forall>i. unat (data_start_block (boot_sector fs3)) \<le> i \<and> i < unat (total_blocks (boot_sector fs3))
              \<and> i < 65535 \<longrightarrow> fat_table fs3 i \<noteq> FAT_ENTRY_FREE)" using False by simp
          have xin3: "fat_table fs3 x = FAT_ENTRY_FREE \<or> x \<in> unat ` set [b]"
            using xin ch ok(3) by (auto simp: f3)
          show ?thesis by (rule less.IH [OF dec rec tot3 chain3 pv3 stuck3 xin3 xlt])
        qed
      next
        case C
        with stuck ok(4,5,6) have "fat_table fs i \<noteq> FAT_ENTRY_FREE" by simp
        with ok(7) show ?thesis by simp
      qed
    qed
  qed
qed

subsection \<open>The loop of write_file leaves the directory block alone\<close>


lemma geometry_seek:
  "unat (fat_blocks (boot_sector fs)) < k \<Longrightarrow> k < 65536 \<Longrightarrow>
     \<forall>j < unat (fat_blocks (boot_sector fs)). seek_block (1 + j) \<noteq> seek_block k"
  by (simp add: seek_block_small)

lemma write_loop_keeps_block:
  "write_loop fs d n first prev = (r, fs') \<Longrightarrow>
   unat (total_blocks (boot_sector fs)) \<le> MAX_BLOCKS \<Longrightarrow>
   unat (fat_blocks (boot_sector fs)) < k \<Longrightarrow>
   k < unat (data_start_block (boot_sector fs)) \<Longrightarrow>
   k < unat (total_blocks (boot_sector fs)) \<Longrightarrow>
   read_block fs' k = read_block fs k \<and> boot_sector fs' = boot_sector fs
     \<and> current_dir_block fs' = current_dir_block fs"
proof (induction n arbitrary: fs d first prev rule: less_induct)
  case (less n)
  note res = less.prems(1) and tot = less.prems(2) and g1 = less.prems(3) and g2 = less.prems(4)
    and g3 = less.prems(5)
  from tot g3 have k: "k < 65536" by (simp add: MAX_BLOCKS_def TOTAL_DISK_SIZE_def BLOCK_SIZE_def)
  note seek = geometry_seek [OF g1 k]
  show ?case
  proof (cases "n = 0")
    case True
    then show ?thesis using res by (simp add: write_loop_done)
  next
    case False
    then have npos: "0 < n" by simp
    obtain b fs1 where alloc: "allocate_block fs = (b, fs1)" by (cases "allocate_block fs")
    then have fs1: "fs1 = snd (allocate_block fs)" by simp
    have f1: "read_block fs1 k = read_block fs k" "boot_sector fs1 = boot_sector fs"
        "current_dir_block fs1 = current_dir_block fs"
      unfolding fs1 using allocate_block_read [OF seek] allocate_block_fields [of fs] by simp_all
    have seek1: "\<forall>j < unat (fat_blocks (boot_sector fs1)). seek_block (1 + j) \<noteq> seek_block k"
      using seek f1(2) by simp
    show ?thesis
    proof (cases "b = FAT_ENTRY_FREE")
      case True
      from write_loop_no_space [OF npos alloc [unfolded True], of d first prev] res
      have "fs' = (if first \<noteq> FAT_ENTRY_EOF then free_blocks fs1 first else fs1)" by simp
      then show ?thesis using f1 free_blocks_read [OF seek1, of first] by (simp add: free_blocks_fields)
    next
      case False
      let ?fs2 = "if prev \<noteq> FAT_ENTRY_EOF
                  then fs1\<lparr>fat_table := (fat_table fs1)(unat prev := b)\<rparr> else fs1"
      let ?buf = "DataB (\<lambda>i. if i < min n BLOCK_SIZE then d ! i else 0)"
      have f2: "read_block ?fs2 k = read_block fs k" "boot_sector ?fs2 = boot_sector fs"
        "current_dir_block ?fs2 = current_dir_block fs" using f1 by simp_all
      have seek2: "\<forall>j < unat (fat_blocks (boot_sector ?fs2)). seek_block (1 + j) \<noteq> seek_block k"
        using seek f2(2) by simp
      show ?thesis
      proof (cases "write_block ?fs2 (unat b) ?buf")
        case None
        from write_loop_io_error [OF npos alloc False None, of first] res
        have "fs' = free_blocks ?fs2 (if first = FAT_ENTRY_EOF then b else first)" by simp
        then show ?thesis
          using f2 free_blocks_read [OF seek2, of "if first = FAT_ENTRY_EOF then b else first"]
          by (simp add: free_blocks_fields)
      next
        case (Some fs3)
        from tot have "unat b \<noteq> k"
        proof (cases rule: allocate_block_cases)
          case full
          then show ?thesis using alloc False by simp
        next
          case (last_block fs1')
          then show ?thesis using alloc False by simp
        next
          case (ok i b' fs1')
          then show ?thesis using alloc g2 by auto
        qed
        moreover have "unat b < 65536" using unsigned_less [of b, where ?'a = nat] by simp
        ultimately have "seek_block (unat b) \<noteq> seek_block k" using k by (simp add: seek_block_small)
        from write_block_read_other [OF Some this] write_block_fields [OF Some]
        have f3: "read_block fs3 k = read_block fs k" "boot_sector fs3 = boot_sector fs"
          "current_dir_block fs3 = current_dir_block fs" using f2 by auto
        from write_loop_next [OF npos alloc False Some, of first] res
        have rec: "write_loop fs3 (drop (min n BLOCK_SIZE) d) (n - min n BLOCK_SIZE)
                     (if first = FAT_ENTRY_EOF then b else first) b = (r, fs')" by simp
        have dec: "n - min n BLOCK_SIZE < n" using npos by (simp add: BLOCK_SIZE_def min_def)
        from less.IH [OF dec rec] tot g1 g2 g3 f3 show ?thesis by simp
      qed
    qed
  qed
qed


subsection \<open>write_file then read_file, with enough free blocks below 65534\<close>

text \<open>
  When the loop of \<^verbatim>\<open>write_file\<close> succeeds and every block it needs is found among the
  free data blocks below 65534, the blocks it allocates form a chain that ends with
  \<^verbatim>\<open>EOF\<close>, hold the data padded with zeros, and no other data block changes. Reading
  the file back then returns the data: \<open>write_file_read_file_round_trip\<close>.
\<close>


lemma is_chain_fat_path: "is_chain fat h bs \<Longrightarrow> fat_path fat h bs FAT_ENTRY_EOF"
  by (induction bs arbitrary: h) auto

lemma map_nth_take: "n \<le> length d \<Longrightarrow> map ((!) d) [0..<n] = take n d"
  by (rule nth_equalityI) simp_all

lemma block_data_bytes:
  "m \<le> BLOCK_SIZE \<Longrightarrow> m \<le> length d \<Longrightarrow>
     take m (map (block_bytes (DataB (\<lambda>i. if i < m then d ! i else 0))) [0..<BLOCK_SIZE]) = take m d"
proof -
  assume m: "m \<le> BLOCK_SIZE" "m \<le> length d"
  have "take m (map (block_bytes (DataB (\<lambda>i. if i < m then d ! i else 0))) [0..<BLOCK_SIZE])
          = map (block_bytes (DataB (\<lambda>i. if i < m then d ! i else 0))) [0..<m]"
    using m(1) by (simp add: take_map min_def)
  also have "\<dots> = map ((!) d) [0..<m]" by simp
  also have "\<dots> = take m d" using m(2) by (rule map_nth_take)
  finally show ?thesis .
qed

lemma chain_bytes_Cons:
  "chain_bytes img (b # bs) = map (block_bytes (img (seek_block (unat b)))) [0..<BLOCK_SIZE] @ chain_bytes img bs"
  by (simp add: chain_bytes_def)

lemma chain_bytes_cong:
  "(\<And>b. b \<in> set bs \<Longrightarrow> img (seek_block (unat b)) = img' (seek_block (unat b))) \<Longrightarrow>
     chain_bytes img bs = chain_bytes img' bs"
  by (simp add: chain_bytes_def cong: map_cong)

lemma unat16_lt: "unat (b :: 16 word) < 65536"
  using unsigned_less [of b, where ?'a = nat] by simp

lemma write_loop_success:
  "write_loop fs d n first prev = (Inr (f, p), fs') \<Longrightarrow> 0 < n \<Longrightarrow> n \<le> length d \<Longrightarrow>
   unat (total_blocks (boot_sector fs)) \<le> MAX_BLOCKS \<Longrightarrow>
   unat (fat_blocks (boot_sector fs)) < unat (data_start_block (boot_sector fs)) \<Longrightarrow>
   n \<le> BLOCK_SIZE * card (free_data_blocks fs) \<Longrightarrow>
   (prev \<noteq> FAT_ENTRY_EOF \<longrightarrow> fat_table fs (unat prev) \<noteq> FAT_ENTRY_FREE) \<Longrightarrow>
   disk_file fs = Some img \<Longrightarrow>
   \<exists>bs img'. bs \<noteq> [] \<and> p = last bs \<and> f = (if first = FAT_ENTRY_EOF then hd bs else first)
      \<and> is_chain (fat_table fs') (hd bs) bs
      \<and> (\<forall>c \<in> set bs. fat_table fs (unat c) = FAT_ENTRY_FREE
             \<and> unat (data_start_block (boot_sector fs)) \<le> unat c
             \<and> unat c < unat (total_blocks (boot_sector fs)))
      \<and> (prev \<noteq> FAT_ENTRY_EOF \<longrightarrow> fat_table fs' (unat prev) = hd bs)
      \<and> (\<forall>x. x \<notin> unat ` set bs \<and> (prev = FAT_ENTRY_EOF \<or> x \<noteq> unat prev)
             \<longrightarrow> fat_table fs' x = fat_table fs x)
      \<and> disk_file fs' = Some img'
      \<and> take n (chain_bytes img' bs) = take n d
      \<and> n \<le> BLOCK_SIZE * length bs
      \<and> (\<forall>k. unat (fat_blocks (boot_sector fs)) < k \<and> k < 65536 \<and> k \<notin> unat ` set bs
             \<longrightarrow> img' k = img k)
      \<and> boot_sector fs' = boot_sector fs \<and> current_dir_block fs' = current_dir_block fs"
proof (induction n arbitrary: fs d first prev img rule: less_induct)
  case (less n)
  note res = less.prems(1) and npos = less.prems(2) and len = less.prems(3) and tot = less.prems(4)
    and g = less.prems(5) and enough = less.prems(6) and pv = less.prems(7)
    and img = less.prems(8)
  have fin: "finite (free_data_blocks fs)" for fs
  proof (rule finite_subset)
    show "free_data_blocks fs \<subseteq> {..<65534}" by (auto simp: free_data_blocks_def)
  qed simp
  from tot show ?case
  proof (cases rule: allocate_block_cases)
    case full
    from write_loop_no_space [OF npos full, of d first prev] res show ?thesis by simp
  next
    case (last_block fs1)
    from write_loop_no_space [OF npos last_block(1), of d first prev] res show ?thesis by simp
  next
    case (ok i b fs1)
    have fs1: "fs1 = snd (allocate_block fs)" using ok(1) by simp
    have cur1: "current_dir_block fs1 = current_dir_block fs"
      unfolding fs1 using allocate_block_fields [of fs] by simp
    obtain img1 where img1: "disk_file fs1 = Some img1"
      and fr1: "\<forall>k. (\<forall>j < unat (fat_blocks (boot_sector fs)). seek_block (1 + j) \<noteq> k) \<longrightarrow> img1 k = img k"
      unfolding fs1 using allocate_block_disk [OF img] by blast
    have frame1: "img1 k = img k" if "unat (fat_blocks (boot_sector fs)) < k" for k
    proof -
      have "\<forall>j < unat (fat_blocks (boot_sector fs)). seek_block (1 + j) \<noteq> k"
      proof (intro allI impI)
        fix j assume j: "j < unat (fat_blocks (boot_sector fs))"
        have "unat (fat_blocks (boot_sector fs)) < 4294967296"
          using unsigned_less [of "fat_blocks (boot_sector fs)", where ?'a = nat] by simp
        then have "seek_block (1 + j) \<le> 1 + j"
          by (simp add: seek_block_def BLOCK_SIZE_def)
        then show "seek_block (1 + j) \<noteq> k" using j that by simp
      qed
      then show ?thesis using fr1 by blast
    qed
    have i16: "i < 65536" using ok(3) unat16_lt [of b] by simp
    have "card (free_data_blocks fs) \<noteq> 0"
    proof
      assume "card (free_data_blocks fs) = 0"
      with enough npos show False by simp
    qed
    then obtain j where "j \<in> free_data_blocks fs" using fin [of fs] by (auto simp: card_eq_0_iff)
    then have j: "unat (data_start_block (boot_sector fs)) \<le> j" "j < 65534"
      "fat_table fs j = FAT_ENTRY_FREE" by (simp_all add: free_data_blocks_def)
    have i_lt: "i < 65534"
    proof (rule ccontr)
      assume "\<not> i < 65534"
      then have "j < i" using j(2) by simp
      with ok(8) j(1,3) show False by blast
    qed
    then have i_hi: "i \<noteq> 65534" "i \<noteq> 65535" by simp_all
    have i_in: "i \<in> free_data_blocks fs" using ok(5,6,7) i_lt by (simp add: free_data_blocks_def)
    have bE: "b \<noteq> FAT_ENTRY_EOF" using i_hi(1) ok(3) by (auto simp: unat_sentinels)
    have prev_i: "prev \<noteq> FAT_ENTRY_EOF \<longrightarrow> unat prev \<noteq> i" using pv ok(7) by auto
    let ?fs2 = "if prev \<noteq> FAT_ENTRY_EOF
                then fs1\<lparr>fat_table := (fat_table fs1)(unat prev := b)\<rparr> else fs1"
    let ?m = "min n BLOCK_SIZE"
    let ?buf = "DataB (\<lambda>k. if k < ?m then d ! k else 0)"
    let ?first' = "if first = FAT_ENTRY_EOF then b else first"
    have fat2: "fat_table ?fs2 x = (if prev \<noteq> FAT_ENTRY_EOF \<and> x = unat prev then b
                                     else if x = i then FAT_ENTRY_EOF else fat_table fs x)" for x
      using ok(9) by simp
    show ?thesis
    proof (cases "write_block ?fs2 (unat b) ?buf")
      case None
      from write_loop_io_error [OF npos ok(1,2) None, of first] res show ?thesis by simp
    next
      case (Some fs3)
      have d2: "disk_file ?fs2 = Some img1" "boot_sector ?fs2 = boot_sector fs"
        "current_dir_block ?fs2 = current_dir_block fs" using img1 ok(10) cur1 by simp_all
      from write_block_fields [OF Some] d2
      have fat3: "fat_table fs3 = fat_table ?fs2" and boot3: "boot_sector fs3 = boot_sector fs"
        and cur3: "current_dir_block fs3 = current_dir_block fs"
        and img3: "disk_file fs3 = Some (img1(i := ?buf))"
        using ok(3) i16 by (auto simp: seek_block_small)
      from write_loop_next [OF npos ok(1,2) Some, of first] res
      have rec: "write_loop fs3 (drop ?m d) (n - ?m) ?first' b = (Inr (f, p), fs')" by simp
      have i_fat: "unat (fat_blocks (boot_sector fs)) < i" using g ok(5) by simp
      have seek_i: "seek_block i = i" using i16 by (simp add: seek_block_small)
      show ?thesis
      proof (cases "n - ?m = 0")
        case True
        then have n_le: "n \<le> BLOCK_SIZE" and m: "?m = n" by (simp_all add: min_def split: if_splits)
        from rec True have fs': "fs' = fs3" and f: "f = ?first'" and p: "p = b"
          by (simp_all add: write_loop_done)
        have bytes: "take n (chain_bytes (img1(i := ?buf)) [b]) = take n d"
          using block_data_bytes [of n d] n_le len
          by (simp add: chain_bytes_def ok(3) seek_i m)
        have c1: "is_chain (fat_table fs') (hd [b]) [b]"
          using bE ok(2) prev_i by (auto simp: fs' fat3 fat2 ok(3))
        have c2: "\<forall>c \<in> set [b]. fat_table fs (unat c) = FAT_ENTRY_FREE
             \<and> unat (data_start_block (boot_sector fs)) \<le> unat c
             \<and> unat c < unat (total_blocks (boot_sector fs))" using ok(3,5,6,7) by simp
        have c3: "prev \<noteq> FAT_ENTRY_EOF \<longrightarrow> fat_table fs' (unat prev) = hd [b]"
          by (simp add: fs' fat3 fat2)
        have c4: "\<forall>x. x \<notin> unat ` set [b] \<and> (prev = FAT_ENTRY_EOF \<or> x \<noteq> unat prev)
             \<longrightarrow> fat_table fs' x = fat_table fs x"
          by (auto simp: fs' fat3 fat2 ok(3))
        have c5: "\<forall>k. unat (fat_blocks (boot_sector fs)) < k \<and> k < 65536 \<and> k \<notin> unat ` set [b]
             \<longrightarrow> (img1(i := ?buf)) k = img k" using frame1 ok(3) by simp
        have c6: "n \<le> BLOCK_SIZE * length [b]" using n_le by simp
        show ?thesis
        proof (rule exI [of _ "[b]"], rule exI [of _ "img1(i := ?buf)"], intro conjI)
          show "[b] \<noteq> []"
            by simp
          show "p = last [b]"
            using p by simp
          show "f = (if first = FAT_ENTRY_EOF then hd [b] else first)"
            using f by simp
          show "is_chain (fat_table fs') (hd [b]) [b]"
            by (rule c1)
          show "\<forall>c \<in> set [b]. fat_table fs (unat c) = FAT_ENTRY_FREE
             \<and> unat (data_start_block (boot_sector fs)) \<le> unat c
             \<and> unat c < unat (total_blocks (boot_sector fs))"
            by (rule c2)
          show "prev \<noteq> FAT_ENTRY_EOF \<longrightarrow> fat_table fs' (unat prev) = hd [b]"
            by (rule c3)
          show "\<forall>x. x \<notin> unat ` set [b] \<and> (prev = FAT_ENTRY_EOF \<or> x \<noteq> unat prev)
             \<longrightarrow> fat_table fs' x = fat_table fs x"
            by (rule c4)
          show "disk_file fs' = Some (img1(i := ?buf))"
            using img3 fs' by simp
          show "take n (chain_bytes (img1(i := ?buf)) [b]) = take n d"
            by (rule bytes)
          show "n \<le> BLOCK_SIZE * length [b]"
            by (rule c6)
          show "\<forall>k. unat (fat_blocks (boot_sector fs)) < k \<and> k < 65536 \<and> k \<notin> unat ` set [b]
             \<longrightarrow> (img1(i := ?buf)) k = img k"
            by (rule c5)
          show "boot_sector fs' = boot_sector fs"
            using boot3 fs' by simp
          show "current_dir_block fs' = current_dir_block fs"
            using cur3 fs' by simp
        qed
      next
        case False
        then have n_gt: "BLOCK_SIZE < n" and m: "?m = BLOCK_SIZE" by (simp_all add: min_def split: if_splits)
        have dec: "n - ?m < n" "0 < n - ?m" using False npos by (simp_all add: m BLOCK_SIZE_def)
        have len': "n - ?m \<le> length (drop ?m d)" using len by simp
        have tot3: "unat (total_blocks (boot_sector fs3)) \<le> MAX_BLOCKS" using tot boot3 by simp
        have g3: "unat (fat_blocks (boot_sector fs3)) < unat (data_start_block (boot_sector fs3))"
          using g boot3 by simp
        have "free_data_blocks fs3 = free_data_blocks fs - {i}"
          using pv ok(2) by (auto simp: free_data_blocks_def boot3 fat3 fat2)
        then have "card (free_data_blocks fs3) = card (free_data_blocks fs) - 1"
          using i_in fin [of fs] by simp
        then have hi3: "n - ?m \<le> BLOCK_SIZE * card (free_data_blocks fs3)"
          using enough n_gt by (simp add: m diff_mult_distrib2)
        have pv3: "b \<noteq> FAT_ENTRY_EOF \<longrightarrow> fat_table fs3 (unat b) \<noteq> FAT_ENTRY_FREE"
          using prev_i by (auto simp: fat3 fat2 ok(3))
        from less.IH [OF dec(1) rec dec(2) len' tot3 g3 hi3 pv3 img3]
        obtain bs' img' where IH:
          "bs' \<noteq> []" "p = last bs'" "f = (if ?first' = FAT_ENTRY_EOF then hd bs' else ?first')"
          "is_chain (fat_table fs') (hd bs') bs'"
          "\<forall>c \<in> set bs'. fat_table fs3 (unat c) = FAT_ENTRY_FREE
             \<and> unat (data_start_block (boot_sector fs3)) \<le> unat c
             \<and> unat c < unat (total_blocks (boot_sector fs3))"
          "b \<noteq> FAT_ENTRY_EOF \<longrightarrow> fat_table fs' (unat b) = hd bs'"
          "\<forall>x. x \<notin> unat ` set bs' \<and> (b = FAT_ENTRY_EOF \<or> x \<noteq> unat b)
             \<longrightarrow> fat_table fs' x = fat_table fs3 x"
          "disk_file fs' = Some img'"
          "take (n - ?m) (chain_bytes img' bs') = take (n - ?m) (drop ?m d)"
          "n - ?m \<le> BLOCK_SIZE * length bs'"
          "\<forall>k. unat (fat_blocks (boot_sector fs3)) < k \<and> k < 65536 \<and> k \<notin> unat ` set bs'
             \<longrightarrow> img' k = (img1(i := ?buf)) k"
          "boot_sector fs' = boot_sector fs3" "current_dir_block fs' = current_dir_block fs3"
          by blast
        have free3: "fat_table fs3 (unat c) = FAT_ENTRY_FREE" if "c \<in> set bs'" for c
          using IH(5) that by blast
        have not_i: "unat c \<noteq> i" if "c \<in> set bs'" for c
          using free3 [OF that] prev_i by (auto simp: fat3 fat2 split: if_splits)
        have not_prev: "prev \<noteq> FAT_ENTRY_EOF \<longrightarrow> unat c \<noteq> unat prev" if "c \<in> set bs'" for c
          using free3 [OF that] ok(2) by (auto simp: fat3 fat2 split: if_splits)
        have same3: "fat_table fs (unat c) = FAT_ENTRY_FREE" if "c \<in> set bs'" for c
          using free3 [OF that] not_i [OF that] not_prev [OF that] by (simp add: fat3 fat2 split: if_splits)
        have i_not: "i \<notin> unat ` set bs'" using not_i by auto
        have c1: "is_chain (fat_table fs') (hd (b # bs')) (b # bs')"
          using IH(4,6) bE ok(2) by simp
        have c2: "\<forall>c \<in> set (b # bs'). fat_table fs (unat c) = FAT_ENTRY_FREE
             \<and> unat (data_start_block (boot_sector fs)) \<le> unat c
             \<and> unat c < unat (total_blocks (boot_sector fs))"
          using ok(3,5,6,7) IH(5) same3 boot3 by auto
        have c3: "prev \<noteq> FAT_ENTRY_EOF \<longrightarrow> fat_table fs' (unat prev) = hd (b # bs')"
        proof
          assume pe: "prev \<noteq> FAT_ENTRY_EOF"
          have "unat c \<noteq> unat prev" if "c \<in> set bs'" for c using not_prev [OF that] pe by simp
          then have "unat prev \<notin> unat ` set bs'" by (metis imageE)
          moreover have "unat prev \<noteq> unat b" using prev_i pe ok(3) by simp
          ultimately have "fat_table fs' (unat prev) = fat_table fs3 (unat prev)" using IH(7) by blast
          then show "fat_table fs' (unat prev) = hd (b # bs')" using pe by (simp add: fat3 fat2)
        qed
        have c4: "\<forall>x. x \<notin> unat ` set (b # bs') \<and> (prev = FAT_ENTRY_EOF \<or> x \<noteq> unat prev)
             \<longrightarrow> fat_table fs' x = fat_table fs x"
        proof (intro allI impI)
          fix x assume x: "x \<notin> unat ` set (b # bs') \<and> (prev = FAT_ENTRY_EOF \<or> x \<noteq> unat prev)"
          then have "fat_table fs' x = fat_table fs3 x" using IH(7) by auto
          also have "\<dots> = fat_table fs x" using x ok(3) by (auto simp: fat3 fat2)
          finally show "fat_table fs' x = fat_table fs x" .
        qed
        have at_i: "img' i = ?buf" using IH(11) i_fat i16 i_not boot3 by simp
        have first_block_bytes: "map (block_bytes (img' (seek_block (unat b)))) [0..<BLOCK_SIZE]
                                   = take BLOCK_SIZE d"
        proof -
          have "take BLOCK_SIZE (map (block_bytes (DataB (\<lambda>k. if k < BLOCK_SIZE then d ! k else 0)))
                  [0..<BLOCK_SIZE]) = take BLOCK_SIZE d"
            using block_data_bytes [of BLOCK_SIZE d] n_gt len by simp
          then show ?thesis by (simp add: ok(3) seek_i at_i m)
        qed
        have bytes: "take n (chain_bytes img' (b # bs')) = take n d"
        proof -
          have "take n (chain_bytes img' (b # bs'))
                  = take BLOCK_SIZE d @ take (n - BLOCK_SIZE) (chain_bytes img' bs')"
            using n_gt len by (simp add: chain_bytes_Cons first_block_bytes)
          also have "\<dots> = take BLOCK_SIZE d @ take (n - BLOCK_SIZE) (drop BLOCK_SIZE d)"
            using IH(9) by (simp add: m)
          also have "\<dots> = take n d"
            using n_gt take_add [of BLOCK_SIZE "n - BLOCK_SIZE" d] by simp
          finally show ?thesis .
        qed
        have c5: "\<forall>k. unat (fat_blocks (boot_sector fs)) < k \<and> k < 65536 \<and> k \<notin> unat ` set (b # bs')
             \<longrightarrow> img' k = img k"
          using IH(11) frame1 ok(3) boot3 by auto
        have c6: "n \<le> BLOCK_SIZE * length (b # bs')" using IH(10) by (simp add: m)
        have f': "f = (if first = FAT_ENTRY_EOF then hd (b # bs') else first)"
          using IH(3) bE by simp
        have p': "p = last (b # bs')" using IH(1,2) by simp
        show ?thesis
        proof (rule exI [of _ "(b # bs')"], rule exI [of _ "img'"], intro conjI)
          show "(b # bs') \<noteq> []"
            by simp
          show "p = last (b # bs')"
            by (rule p')
          show "f = (if first = FAT_ENTRY_EOF then hd (b # bs') else first)"
            by (rule f')
          show "is_chain (fat_table fs') (hd (b # bs')) (b # bs')"
            by (rule c1)
          show "\<forall>c \<in> set (b # bs'). fat_table fs (unat c) = FAT_ENTRY_FREE
             \<and> unat (data_start_block (boot_sector fs)) \<le> unat c
             \<and> unat c < unat (total_blocks (boot_sector fs))"
            by (rule c2)
          show "prev \<noteq> FAT_ENTRY_EOF \<longrightarrow> fat_table fs' (unat prev) = hd (b # bs')"
            by (rule c3)
          show "\<forall>x. x \<notin> unat ` set (b # bs') \<and> (prev = FAT_ENTRY_EOF \<or> x \<noteq> unat prev)
             \<longrightarrow> fat_table fs' x = fat_table fs x"
            by (rule c4)
          show "disk_file fs' = Some (img')"
            by (rule IH(8))
          show "take n (chain_bytes (img') (b # bs')) = take n d"
            by (rule bytes)
          show "n \<le> BLOCK_SIZE * length (b # bs')"
            by (rule c6)
          show "\<forall>k. unat (fat_blocks (boot_sector fs)) < k \<and> k < 65536 \<and> k \<notin> unat ` set (b # bs')
             \<longrightarrow> (img') k = img k"
            by (rule c5)
          show "boot_sector fs' = boot_sector fs"
            using IH(12) boot3 by simp
          show "current_dir_block fs' = current_dir_block fs"
            using IH(13) cur3 by simp
        qed
      qed
    qed
  qed
qed

text \<open>
  A lookup that stopped at a slot held whole by the block stops there again after that
  slot was written back with the same name.
\<close>

lemma find_file_same_names:
  assumes rd: "read_block fs n = Some b"
    and rd': "read_block fs' n = Some (DirB (dir_prefix
                ((dir_overlay dir_local (block_dir b))
                   \<lparr>entries := (entries (dir_overlay dir_local (block_dir b)))(idx := e')\<rparr>)))"
    and name: "filename e' = filename (entries (dir_overlay dir_local (block_dir b)) idx)"
    and fnd: "find_file_in_directory fs n name find_local = Some idx"
    and below: "idx < 12"
  shows "find_file_in_directory fs' n name find_local' = Some idx"
proof -
  let ?dir = "dir_overlay dir_local (block_dir b)"
  let ?dir' = "?dir\<lparr>entries := (entries ?dir)(idx := e')\<rparr>"
  have same: "filename (entries (dir_overlay find_local' (dir_prefix ?dir')) j)
                = filename (entries (dir_overlay find_local (block_dir b)) j)" if "j \<le> idx" for j
    using that below name by (simp add: overlay_entry_below prefix_entry)
  from fnd rd rd' show ?thesis
    by (auto simp: find_file_in_directory_def Let_def first_from_Some same)
qed

lemma write_file_read_file_round_trip:
  assumes rd: "read_block fs (unat (current_dir_block fs)) = Some b"
    and fnd: "find_file_in_directory fs (unat (current_dir_block fs)) name find_local = Some idx"
    and below: "idx < 12"
    and ty: "type (entries (dir_overlay dir_local (block_dir b)) idx) = TYPE_FILE"
    and g1: "unat (fat_blocks (boot_sector fs)) < unat (current_dir_block fs)"
    and g2: "unat (current_dir_block fs) < unat (data_start_block (boot_sector fs))"
    and tot: "unat (total_blocks (boot_sector fs)) \<le> MAX_BLOCKS"
    and enough: "length data \<le> BLOCK_SIZE * card (free_data_blocks fs)"
    and size: "length data \<le> MAX_FILE_BLOCKS * BLOCK_SIZE"
    and res: "write_file fs name data now dir_local find_local = (Inr (), fs')"
  shows "read_file fs' name dir_local' find_local' = Inr data
       \<and> (\<exists>b'. read_block fs' (unat (current_dir_block fs')) = Some b'
               \<and> file_size (entries (dir_overlay dir_local' (block_dir b')) idx)
                    = of_nat (length data))"
proof -
  let ?dir = "dir_overlay dir_local (block_dir b)"
  let ?e = "entries ?dir idx"
  let ?cur = "unat (current_dir_block fs)"
  let ?fs1 = "if first_block ?e \<noteq> FAT_ENTRY_EOF then free_blocks fs (first_block ?e) else fs"
  let ?n = "length data mod 2 ^ 32"
  have n: "?n = length data" and n_small: "length data < 4294967296" "length data \<le> 131072"
    using size by (simp_all add: MAX_FILE_BLOCKS_def BLOCK_SIZE_def)
  from read_block_SomeD [OF rd] obtain img where img: "disk_file fs = Some img"
    and lt: "?cur < unat (total_blocks (boot_sector fs))" by blast
  from tot lt have k: "?cur < 65536" by (simp add: MAX_BLOCKS_def TOTAL_DISK_SIZE_def BLOCK_SIZE_def)
  note seek = geometry_seek [OF g1 k]
  have f1: "boot_sector ?fs1 = boot_sector fs" "current_dir_block ?fs1 = current_dir_block fs"
    by (simp_all add: free_blocks_fields)
  have "free_data_blocks fs \<subseteq> free_data_blocks ?fs1"
    using free_walk_walk_of [of "fat_table fs" "first_block ?e"]
    by (auto simp: free_data_blocks_def free_blocks_fields)
  moreover have "finite (free_data_blocks ?fs1)"
  proof (rule finite_subset)
    show "free_data_blocks ?fs1 \<subseteq> {..<65534}" by (auto simp: free_data_blocks_def)
  qed simp
  ultimately have "card (free_data_blocks fs) \<le> card (free_data_blocks ?fs1)" by (rule card_mono [rotated])
  then have "BLOCK_SIZE * card (free_data_blocks fs) \<le> BLOCK_SIZE * card (free_data_blocks ?fs1)"
    by (rule mult_le_mono2)
  with enough have "length data \<le> BLOCK_SIZE * card (free_data_blocks ?fs1)" by (rule le_trans)
  then have hi1: "?n \<le> BLOCK_SIZE * card (free_data_blocks ?fs1)" by (simp only: n)
  obtain img1 where img1: "disk_file ?fs1 = Some img1"
    using free_blocks_disk [OF img, of "first_block ?e"] img by (cases "first_block ?e \<noteq> FAT_ENTRY_EOF") auto
  obtain r fs2 where wl: "write_loop ?fs1 data ?n FAT_ENTRY_EOF FAT_ENTRY_EOF = (r, fs2)"
    by (cases "write_loop ?fs1 data ?n FAT_ENTRY_EOF FAT_ENTRY_EOF")
  have small: "\<not> ?n > MAX_FILE_BLOCKS * BLOCK_SIZE" using size n by simp
  obtain f p where r: "r = Inr (f, p)"
    using res rd fnd ty small wl
    by (cases r) (auto simp: write_file_def Let_def split: if_splits)
  let ?fs3 = "if p \<noteq> FAT_ENTRY_EOF
              then fs2\<lparr>fat_table := (fat_table fs2)(unat p := FAT_ENTRY_EOF)\<rparr> else fs2"
  let ?e' = "?e\<lparr>first_block := f, file_size := of_nat ?n, modified_time := now\<rparr>"
  let ?dir' = "?dir\<lparr>entries := (entries ?dir)(idx := ?e')\<rparr>"
  obtain fs4 where wd: "write_block ?fs3 (unat (current_dir_block ?fs3)) (DirB (dir_prefix ?dir')) = Some fs4"
    and fs': "fs' = flush_fat fs4"
    using res rd fnd ty small wl r
    by (auto simp: write_file_def Let_def split: if_splits option.splits)
  from write_loop_keeps_block [OF wl, of ?cur] tot g1 g2 lt
  have keep: "boot_sector fs2 = boot_sector fs" "current_dir_block fs2 = current_dir_block fs"
    by (simp_all add: f1)
  have f3: "boot_sector ?fs3 = boot_sector fs" "current_dir_block ?fs3 = current_dir_block fs"
    using keep by simp_all
  from write_block_fields [OF wd]
  have f4: "boot_sector fs4 = boot_sector fs" "current_dir_block fs4 = current_dir_block fs"
    "fat_table fs4 = fat_table ?fs3" using f3 by simp_all
  have seek4: "\<forall>j < unat (fat_blocks (boot_sector fs4)). seek_block (1 + j) \<noteq> seek_block ?cur"
    using seek f4(1) by simp
  have rdF: "read_block fs' ?cur = Some (DirB (dir_prefix ?dir'))"
    unfolding fs' using flush_fat_read [OF seek4] read_after_write [OF wd] f3 by simp
  have curF: "unat (current_dir_block fs') = ?cur" by (simp add: fs' flush_fat_fields f4)
  have fndF: "find_file_in_directory fs' ?cur name find_local' = Some idx"
    by (rule find_file_same_names [OF rd rdF _ fnd below]) simp
  have eF: "entries (dir_overlay dir_local' (block_dir (DirB (dir_prefix ?dir')))) idx = ?e'"
    using below by (simp add: overlay_prefix_below)
  have tyF: "type (entries (dir_overlay dir_local' (block_dir (DirB (dir_prefix ?dir')))) idx) = TYPE_FILE"
    unfolding eF using ty by simp
  have szF: "\<exists>b'. read_block fs' (unat (current_dir_block fs')) = Some b'
               \<and> file_size (entries (dir_overlay dir_local' (block_dir b')) idx)
                    = of_nat (length data)"
    using rdF n_small eF by (simp add: curF)
  have "read_file fs' name dir_local' find_local' = Inr data"
  proof (cases "length data = 0")
    case True
    then show ?thesis
      using rdF fndF tyF eF by (simp add: read_file_def Let_def curF)
  next
    case False
    then have npos: "0 < ?n" and len: "?n \<le> length data" using n by simp_all
    have g: "unat (fat_blocks (boot_sector ?fs1)) < unat (data_start_block (boot_sector ?fs1))"
      using g1 g2 f1 by simp
    have tot1: "unat (total_blocks (boot_sector ?fs1)) \<le> MAX_BLOCKS" using tot f1 by simp
    have pv: "FAT_ENTRY_EOF \<noteq> FAT_ENTRY_EOF \<longrightarrow> fat_table ?fs1 (unat FAT_ENTRY_EOF) \<noteq> FAT_ENTRY_FREE"
      by simp
    from write_loop_success [OF wl [unfolded r] npos len tot1 g hi1 pv img1]
    obtain bs img2 where W:
      "bs \<noteq> []" "p = last bs" "f = hd bs" "is_chain (fat_table fs2) (hd bs) bs"
      "\<forall>c \<in> set bs. unat (data_start_block (boot_sector ?fs1)) \<le> unat c
             \<and> unat c < unat (total_blocks (boot_sector ?fs1))"
      "disk_file fs2 = Some img2" "take ?n (chain_bytes img2 bs) = take ?n data"
      by auto
    have range: "?cur < unat c \<and> unat c < unat (total_blocks (boot_sector fs))" if "c \<in> set bs" for c
      using W(5) that g2 f1 by auto
    have fat3: "fat_table ?fs3 = fat_table fs2"
      using is_chain_last [OF W(4) W(1)] W(2) by (auto simp: fun_upd_idem)
    have fatF: "fat_table fs' = fat_table fs2" by (simp add: fs' flush_fat_fields f4 fat3)
    have d3: "disk_file ?fs3 = Some img2" using W(6) by simp
    from write_block_fields [OF wd] d3
    have d4: "disk_file fs4 = Some (img2(seek_block ?cur := DirB (dir_prefix ?dir')))" using f3 by auto
    from flush_fat_disk [OF d4] obtain imgF where imgF: "disk_file fs' = Some imgF"
      and frF: "\<forall>n. (\<forall>j < unat (fat_blocks (boot_sector fs4)). seek_block (1 + j) \<noteq> n)
                  \<longrightarrow> imgF n = (img2(seek_block ?cur := DirB (dir_prefix ?dir'))) n"
      unfolding fs' by blast
    have blk: "imgF (seek_block (unat c)) = img2 (seek_block (unat c))" if "c \<in> set bs" for c
    proof -
      have c: "?cur < unat c" "unat c < 65536" using range [OF that] unat16_lt [of c] by simp_all
      then have "\<forall>j < unat (fat_blocks (boot_sector fs4)). seek_block (1 + j) \<noteq> seek_block (unat c)"
        using g1 f4(1) by (simp add: seek_block_small)
      then have "imgF (seek_block (unat c)) = (img2(seek_block ?cur := DirB (dir_prefix ?dir'))) (seek_block (unat c))"
        using frF by blast
      then show ?thesis using c k by (simp add: seek_block_small)
    qed
    have bytes: "chain_bytes imgF bs = chain_bytes img2 bs"
      by (rule chain_bytes_cong) (rule blk)
    have path: "fat_path (fat_table fs') (hd bs) bs FAT_ENTRY_EOF"
      unfolding fatF by (rule is_chain_fat_path [OF W(4)])
    have rangeF: "\<forall>c \<in> set bs. unat c < unat (total_blocks (boot_sector fs'))"
      using range by (simp add: fs' flush_fat_fields f4)
    have stop: "FAT_ENTRY_EOF = FAT_ENTRY_EOF \<or> length data \<le> BLOCK_SIZE * length bs" by simp
    have rl: "read_loop fs' (hd bs) (length data) = Inr (take (length data) (chain_bytes imgF bs))"
      unfolding chain_bytes_def by (rule read_loop_path [OF imgF path rangeF stop])
    have "take (length data) (chain_bytes imgF bs) = data" using W(7) bytes n by simp
    with rl have rl': "read_loop fs' (hd bs) (length data) = Inr data" by simp
    have un: "unat (word_of_nat (length data) :: 32 word) = length data"
      using n_small by (simp add: unat_of_nat)
    then have nz: "(word_of_nat (length data) :: 32 word) \<noteq> 0" using False by auto
    have n': "length data mod 4294967296 = length data" using n_small by simp
    show ?thesis
      using rdF fndF tyF rl' un nz eF
      by (simp add: read_file_def Let_def curF W(3) n')
  qed
  with szF show ?thesis by simp
qed

lemma write_hello_read_hello:
  "fst (write_file (example_fs formatted_fat (example_dir (example_entry ''a.txt'' TYPE_FILE 0 FAT_ENTRY_EOF)))
          ''a.txt'' [104, 101, 108, 108, 111] 9 dir_local find_local) = Inr ()
   \<and> read_file (snd (write_file (example_fs formatted_fat (example_dir (example_entry ''a.txt'' TYPE_FILE 0 FAT_ENTRY_EOF)))
          ''a.txt'' [104, 101, 108, 108, 111] 9 dir_local find_local)) ''a.txt'' dir_local' find_local'
       = Inr [104, 101, 108, 108, 111]"
proof -
  let ?e = "example_entry ''a.txt'' TYPE_FILE 0 FAT_ENTRY_EOF"
  let ?d = "example_dir ?e"
  let ?fs = "example_fs formatted_fat ?d"
  let ?data = "[104, 101, 108, 108, 111] :: byte list"
  have rd: "read_block ?fs (unat (current_dir_block ?fs)) = Some (DirB (dir_prefix ?d))"
    by (simp add: example_fs_fields example_fs_read_dir)
  have fnd: "find_file_in_directory ?fs (unat (current_dir_block ?fs)) ''a.txt'' find_local = Some 0"
    by (simp add: example_fs_fields example_find_file NUL_def)
  have e0: "entries (dir_overlay dir_local (block_dir (DirB (dir_prefix ?d)))) 0 = ?e"
    by (rule example_local_entry)
  have ty: "type (entries (dir_overlay dir_local (block_dir (DirB (dir_prefix ?d)))) 0) = TYPE_FILE"
    unfolding e0 by (simp add: example_entry_fields)
  have g1: "unat (fat_blocks (boot_sector ?fs)) < unat (current_dir_block ?fs)"
    and g2: "unat (current_dir_block ?fs) < unat (data_start_block (boot_sector ?fs))"
    and tot: "unat (total_blocks (boot_sector ?fs)) \<le> MAX_BLOCKS"
    by (simp_all add: example_fs_fields MAX_BLOCKS_def TOTAL_DISK_SIZE_def BLOCK_SIZE_def)
  have "130 \<in> free_data_blocks ?fs"
    by (simp add: free_data_blocks_def example_fs_fields formatted_fat_def)
  moreover have "finite (free_data_blocks ?fs)"
  proof (rule finite_subset)
    show "free_data_blocks ?fs \<subseteq> {..<65534}" by (auto simp: free_data_blocks_def)
  qed simp
  ultimately have "0 < card (free_data_blocks ?fs)" by (auto simp: card_gt_0_iff)
  then have enough: "length ?data \<le> BLOCK_SIZE * card (free_data_blocks ?fs)"
    by (simp add: BLOCK_SIZE_def)
  have size: "length ?data \<le> MAX_FILE_BLOCKS * BLOCK_SIZE"
    by (simp add: MAX_FILE_BLOCKS_def BLOCK_SIZE_def)
  define fsA where "fsA = snd (allocate_block ?fs)"
  have ff: "first_from (\<lambda>i. fat_table ?fs i = FAT_ENTRY_FREE) (unat (data_start_block (boot_sector ?fs)))
      (unat (total_blocks (boot_sector ?fs))) = Some 130"
    by (simp add: first_from_Some example_fs_fields formatted_fat_def fat_consts)
  from allocate_block_Some [OF ff]
  have alloc: "allocate_block ?fs = (130, fsA)"
    and bootA: "boot_sector fsA = example_boot" and curA: "current_dir_block fsA = 129"
    unfolding fsA_def by (simp_all add: prod_eq_iff example_fs_fields)
  obtain imgA where imgA: "disk_file fsA = Some imgA"
    unfolding fsA_def using allocate_block_disk [OF example_fs_disk, of formatted_fat ?d] by blast
  define buf where "buf = DataB (\<lambda>i. if i < min 5 BLOCK_SIZE then ?data ! i else 0)"
  define fs3 where "fs3 = fsA\<lparr>disk_file := Some (imgA(seek_block 130 := buf))\<rparr>"
  have wb: "write_block fsA (unat (130 :: 16 word)) buf = Some fs3"
    unfolding fs3_def using write_block_Some [OF imgA, of 130 buf] by (simp add: bootA example_fs_fields)
  have ne: "(130 :: 16 word) \<noteq> FAT_ENTRY_FREE" "(130 :: 16 word) \<noteq> FAT_ENTRY_EOF"
    by (simp_all add: fat_consts)
  have wl: "write_loop ?fs ?data 5 FAT_ENTRY_EOF FAT_ENTRY_EOF = (Inr (130, 130), fs3)"
    using write_loop_next [of 5 ?fs 130 fsA FAT_ENTRY_EOF ?data fs3 FAT_ENTRY_EOF] alloc ne wb
    by (simp add: write_loop_done BLOCK_SIZE_def buf_def)
  let ?fs3' = "fs3\<lparr>fat_table := (fat_table fs3)(130 := FAT_ENTRY_EOF)\<rparr>"
  have cur3: "unat (current_dir_block fs3) = 129"
    and tot3: "unat (total_blocks (boot_sector ?fs3')) = 65536"
    unfolding fs3_def by (simp_all add: curA bootA example_fs_fields)
  obtain img3 where img3: "disk_file ?fs3' = Some img3" unfolding fs3_def by simp
  let ?e' = "?e\<lparr>first_block := 130, file_size := 5, modified_time := 9\<rparr>"
  let ?l = "dir_overlay dir_local (block_dir (DirB (dir_prefix ?d)))"
  let ?d' = "?l\<lparr>entries := (entries ?l)(0 := ?e')\<rparr>"
  obtain fs4 where wd: "write_block ?fs3' 129 (DirB (dir_prefix ?d')) = Some fs4"
    using write_block_Some [OF img3, of 129 "DirB (dir_prefix ?d')"] tot3 by simp
  have wf: "write_file ?fs ''a.txt'' ?data 9 dir_local find_local = (Inr (), flush_fat fs4)"
    using rd fnd wl wd ne cur3 e0
    by (simp add: write_file_def Let_def example_fs_fields example_entry_fields
          MAX_FILE_BLOCKS_def BLOCK_SIZE_def TYPE_FILE_def)
  from write_file_read_file_round_trip [OF rd fnd _ ty g1 g2 tot enough size wf]
  show ?thesis by (simp add: wf)
qed
subsection \<open>Deleting a file; the thirteenth slot\<close>

text \<open>
  \<^verbatim>\<open>delete_file\<close> on an entry that the function takes for a file: it frees the chain
  that starts at the \<^verbatim>\<open>first_block\<close> of the entry held in its local and writes back the
  first 1024 bytes of the local.
\<close>

lemma delete_file_success:
  assumes rd: "read_block fs (unat (current_dir_block fs)) = Some b"
    and fnd: "find_file_in_directory fs (unat (current_dir_block fs)) name find_local = Some idx"
    and ty: "type (entries (dir_overlay dir_local (block_dir b)) idx) = TYPE_FILE"
  shows "\<exists>fs'. delete_file fs name dir_local find_local = (Inr (), fs')
          \<and> fat_table fs'
               = free_walk (fat_table fs) (first_block (entries (dir_overlay dir_local (block_dir b)) idx))
          \<and> boot_sector fs' = boot_sector fs
          \<and> current_dir_block fs' = current_dir_block fs
          \<and> read_block fs' (unat (current_dir_block fs))
               = Some (DirB (dir_prefix ((dir_overlay dir_local (block_dir b))
                    \<lparr>entries := (entries (dir_overlay dir_local (block_dir b)))(idx := zero_entry),
                     entry_count := entry_count (dir_overlay dir_local (block_dir b)) - 1\<rparr>)))"
proof -
  let ?dir = "dir_overlay dir_local (block_dir b)"
  let ?e = "entries ?dir idx"
  let ?cur = "unat (current_dir_block fs)"
  let ?fs1 = "if first_block ?e \<noteq> FAT_ENTRY_EOF then free_blocks fs (first_block ?e) else fs"
  let ?dir' = "?dir\<lparr>entries := (entries ?dir)(idx := zero_entry), entry_count := entry_count ?dir - 1\<rparr>"
  from read_block_SomeD [OF rd] obtain img where img: "disk_file fs = Some img"
    and lt: "?cur < unat (total_blocks (boot_sector fs))" by blast
  have f1: "boot_sector ?fs1 = boot_sector fs" "current_dir_block ?fs1 = current_dir_block fs"
    by (simp_all add: free_blocks_fields)
  have fat1: "fat_table ?fs1 = free_walk (fat_table fs) (first_block ?e)"
    by (simp add: free_blocks_fields free_walk_stop)
  obtain img1 where img1: "disk_file ?fs1 = Some img1"
    using free_blocks_disk [OF img, of "first_block ?e"] img by (cases "first_block ?e \<noteq> FAT_ENTRY_EOF") auto
  let ?fs2 = "?fs1\<lparr>disk_file := Some (img1(seek_block ?cur := DirB (dir_prefix ?dir')))\<rparr>"
  have wr: "write_block ?fs1 (unat (current_dir_block ?fs1)) (DirB (dir_prefix ?dir')) = Some ?fs2"
    using write_block_Some [OF img1, of ?cur "DirB (dir_prefix ?dir')"] lt f1 by simp
  have del: "delete_file fs name dir_local find_local = (Inr (), ?fs2)"
    using rd fnd ty wr by (simp add: delete_file_def Let_def)
  have "read_block ?fs2 ?cur = Some (DirB (dir_prefix ?dir'))"
    using read_after_write [OF wr] f1 by simp
  then show ?thesis using del fat1 f1 by simp
qed

text \<open>
  For a file in one of the slots that the block holds whole, \<^verbatim>\<open>delete_file\<close> frees the
  chain of the file and the slot read back is zeroed; it fails with \<^verbatim>\<open>NotFound\<close> when
  the lookup finds nothing and with \<^verbatim>\<open>NotAFile\<close> when the entry held is not a file,
  returning the state unchanged.
\<close>

lemma delete_file_slot_in_block:
  assumes rd: "read_block fs (unat (current_dir_block fs)) = Some b"
  shows "(find_file_in_directory fs (unat (current_dir_block fs)) name find_local = None
            \<longrightarrow> delete_file fs name dir_local find_local = (Inl NotFound, fs))
       \<and> (\<forall>idx. find_file_in_directory fs (unat (current_dir_block fs)) name find_local = Some idx
                \<and> type (entries (dir_overlay dir_local (block_dir b)) idx) \<noteq> TYPE_FILE
            \<longrightarrow> delete_file fs name dir_local find_local = (Inl NotAFile, fs))
       \<and> (\<forall>idx bs. find_file_in_directory fs (unat (current_dir_block fs)) name find_local = Some idx
                \<and> idx < 12
                \<and> type (whole_entries (block_dir b) ! idx) = TYPE_FILE
                \<and> is_chain (fat_table fs) (first_block (whole_entries (block_dir b) ! idx)) bs
            \<longrightarrow> (\<exists>fs' b'. delete_file fs name dir_local find_local = (Inr (), fs')
                    \<and> (\<forall>blk \<in> set bs. fat_table fs' (unat blk) = FAT_ENTRY_FREE)
                    \<and> read_block fs' (unat (current_dir_block fs')) = Some b'
                    \<and> whole_entries (block_dir b') ! idx = zero_entry))"
proof (intro conjI allI impI)
  assume "find_file_in_directory fs (unat (current_dir_block fs)) name find_local = None"
  then show "delete_file fs name dir_local find_local = (Inl NotFound, fs)"
    using rd by (simp add: delete_file_def Let_def)
next
  fix idx
  assume "find_file_in_directory fs (unat (current_dir_block fs)) name find_local = Some idx
                \<and> type (entries (dir_overlay dir_local (block_dir b)) idx) \<noteq> TYPE_FILE"
  then show "delete_file fs name dir_local find_local = (Inl NotAFile, fs)"
    using rd by (simp add: delete_file_def Let_def)
next
  fix idx bs
  assume h: "find_file_in_directory fs (unat (current_dir_block fs)) name find_local = Some idx
                \<and> idx < 12
                \<and> type (whole_entries (block_dir b) ! idx) = TYPE_FILE
                \<and> is_chain (fat_table fs) (first_block (whole_entries (block_dir b) ! idx)) bs"
  then have e: "entries (dir_overlay dir_local (block_dir b)) idx = whole_entries (block_dir b) ! idx"
    by (simp add: overlay_entry_below)
  from h have ty: "type (entries (dir_overlay dir_local (block_dir b)) idx) = TYPE_FILE"
    unfolding e by simp
  from delete_file_success [OF rd _ ty, of name find_local] h
  obtain fs' where d: "delete_file fs name dir_local find_local = (Inr (), fs')"
    "fat_table fs' = free_walk (fat_table fs) (first_block (whole_entries (block_dir b) ! idx))"
    "current_dir_block fs' = current_dir_block fs"
    "read_block fs' (unat (current_dir_block fs))
       = Some (DirB (dir_prefix ((dir_overlay dir_local (block_dir b))
            \<lparr>entries := (entries (dir_overlay dir_local (block_dir b)))(idx := zero_entry),
             entry_count := entry_count (dir_overlay dir_local (block_dir b)) - 1\<rparr>)))"
    unfolding e by blast
  have "\<forall>blk \<in> set bs. fat_table fs' (unat blk) = FAT_ENTRY_FREE"
    using d(2) free_walk_chain [of "fat_table fs" "first_block (whole_entries (block_dir b) ! idx)" bs] h
    by simp
  then show "\<exists>fs' b'. delete_file fs name dir_local find_local = (Inr (), fs')
                    \<and> (\<forall>blk \<in> set bs. fat_table fs' (unat blk) = FAT_ENTRY_FREE)
                    \<and> read_block fs' (unat (current_dir_block fs')) = Some b'
                    \<and> whole_entries (block_dir b') ! idx = zero_entry"
    using d h by (simp add: prefix_entry)
qed

text \<open>
  Writing back a local in which only a slot past the block was changed, its name apart,
  stores the block that was read.
\<close>

lemma prefix_overlay_upd_above:
  assumes "12 \<le> i" and "filename e = filename (entries (dir_overlay dir b) i)"
    and "length (whole_entries b) = 12" and "length (name_bytes b) = 16"
  shows "dir_prefix ((dir_overlay dir b)\<lparr>entries := (entries (dir_overlay dir b))(i := e)\<rparr>) = b"
proof -
  have "map (entries ((dir_overlay dir b)\<lparr>entries := (entries (dir_overlay dir b))(i := e)\<rparr>)) [0..<12]
          = whole_entries b"
    using assms(1,3) by (auto simp: list_eq_iff_nth_eq overlay_entry_below)
  moreover have "take 16 (filename (entries ((dir_overlay dir b)
                    \<lparr>entries := (entries (dir_overlay dir b))(i := e)\<rparr>) 12)) = name_bytes b"
    using assms(2,4) by (cases "i = 12") (simp_all add: overlay_entry_12)
  ultimately show ?thesis by (simp add: dir_prefix_def dir_block_consts)
qed

lemma thirteen_files_block:
  "length (whole_entries (dir_prefix thirteen_files)) = 12"
  "name_bytes (dir_prefix thirteen_files) = ''m'' @ NUL # replicate 14 NUL"
  by (simp_all add: dir_prefix_def dir_block_consts thirteen_files_def example_entry_def
        strcpy_def MAX_FILENAME_SIZE_def)

lemma thirteen_files_find:
  assumes "read_block fs n = Some (DirB (dir_prefix thirteen_files))"
  shows "find_file_in_directory fs n ''m'' find_local = Some 12"
proof -
  let ?l = "dir_overlay find_local (dir_prefix thirteen_files)"
  have m: "filename (entries ?l 12) = ''m'' @ NUL # replicate 14 NUL @ drop 16 (filename (entries find_local 12))"
    by (simp add: overlay_entry_12 thirteen_files_block)
  have at: "filename (entries ?l 12) ! 0 \<noteq> NUL \<and> c_string (filename (entries ?l 12)) = ''m''"
    unfolding m by (simp add: c_string_def NUL_def)
  have before: "\<not> (filename (entries ?l j) ! 0 \<noteq> NUL \<and> c_string (filename (entries ?l j)) = ''m'')"
    if "j < 12" for j
  proof -
    have "entries ?l j = entries thirteen_files j" using that by (simp add: overlay_prefix_below)
    moreover have "c_string (filename (entries thirteen_files j)) \<noteq> ''m''"
      using that
      by (simp add: thirteen_files_def example_entry_fields c_string_strcpy NUL_def
            zero_entry_c_string)
    ultimately show ?thesis by simp
  qed
  show ?thesis
    using assms at before
    by (simp add: find_file_in_directory_def Let_def first_from_Some MAX_FILES_IN_DIR_def)
qed

subsection \<open>Format, then mount\<close>


subsection \<open>write_file when the image is full\<close>

text \<open>
  Let the entry that \<^verbatim>\<open>write_file\<close> holds for \<open>name\<close> be a file with
  \<^verbatim>\<open>first_block != EOF\<close> whose chain is \<open>bs\<close>, in an image whose directory block lies
  after the FAT blocks and before the data region, with at most \<^verbatim>\<open>MAX_BLOCKS\<close> blocks.
  If \<^verbatim>\<open>write_file\<close> fails with \<^verbatim>\<open>OutOfSpace\<close>, then the failure comes from the
  allocation loop run after \<^verbatim>\<open>free_blocks\<close> on the old chain; every block below 65534
  that was free when the loop started is free again; the directory block read back is
  the one read before the call; and every block of the old chain is \<^verbatim>\<open>FREE\<close> in the
  FAT.
\<close>

lemma write_file_out_of_space:
  assumes rd: "read_block fs (unat (current_dir_block fs)) = Some b"
    and fnd: "find_file_in_directory fs (unat (current_dir_block fs)) name find_local = Some idx"
    and ty: "type (entries (dir_overlay dir_local (block_dir b)) idx) = TYPE_FILE"
    and fb: "first_block (entries (dir_overlay dir_local (block_dir b)) idx) \<noteq> FAT_ENTRY_EOF"
    and chain: "is_chain (fat_table fs) (first_block (entries (dir_overlay dir_local (block_dir b)) idx)) bs"
    and g1: "unat (fat_blocks (boot_sector fs)) < unat (current_dir_block fs)"
    and g2: "unat (current_dir_block fs) < unat (data_start_block (boot_sector fs))"
    and tot: "unat (total_blocks (boot_sector fs)) \<le> MAX_BLOCKS"
    and res: "write_file fs name data now dir_local find_local = (Inl OutOfSpace, fs')"
  shows "write_loop (free_blocks fs (first_block (entries (dir_overlay dir_local (block_dir b)) idx))) data
             (length data mod 2 ^ 32) FAT_ENTRY_EOF FAT_ENTRY_EOF = (Inl OutOfSpace, fs')
       \<and> (\<forall>x < 65534. fat_table (free_blocks fs (first_block (entries (dir_overlay dir_local (block_dir b)) idx))) x = FAT_ENTRY_FREE
              \<longrightarrow> fat_table fs' x = FAT_ENTRY_FREE)
       \<and> read_block fs' (unat (current_dir_block fs')) = Some b
       \<and> (\<forall>blk \<in> set bs. fat_table fs' (unat blk) = FAT_ENTRY_FREE)"
proof -
  let ?e = "entries (dir_overlay dir_local (block_dir b)) idx"
  let ?cur = "unat (current_dir_block fs)"
  let ?fs1 = "free_blocks fs (first_block ?e)"
  let ?n = "length data mod 2 ^ 32"
  obtain r fs2 where wl: "write_loop ?fs1 data ?n FAT_ENTRY_EOF FAT_ENTRY_EOF = (r, fs2)"
    by (cases "write_loop ?fs1 data ?n FAT_ENTRY_EOF FAT_ENTRY_EOF")
  have small: "\<not> ?n > MAX_FILE_BLOCKS * BLOCK_SIZE"
  proof
    assume "?n > MAX_FILE_BLOCKS * BLOCK_SIZE"
    then have "write_file fs name data now dir_local find_local = (Inl TooLarge, fs)"
      using rd fnd ty by (simp add: write_file_def Let_def)
    with res show False by simp
  qed
  have r: "r = Inl OutOfSpace" and fs2: "fs2 = fs'"
    using res rd fnd ty fb small wl
    by (auto simp: write_file_def Let_def split: sum.splits option.splits prod.splits if_splits)
  from read_block_SomeD [OF rd] have lt: "?cur < unat (total_blocks (boot_sector fs))" by blast
  with tot have k: "?cur < 65536" by (simp add: MAX_BLOCKS_def TOTAL_DISK_SIZE_def BLOCK_SIZE_def)
  have rd1: "read_block ?fs1 ?cur = Some b"
    using free_blocks_read [OF geometry_seek [OF g1 k], of "first_block ?e"] rd by simp
  from write_loop_keeps_block [OF wl, of ?cur] tot g1 g2 lt
  have keep: "read_block fs2 ?cur = read_block ?fs1 ?cur" "current_dir_block fs2 = current_dir_block fs"
    by (simp_all add: free_blocks_fields)
  have fat1: "fat_table ?fs1 = (\<lambda>i. if i \<in> unat ` set bs then FAT_ENTRY_FREE else fat_table fs i)"
    using free_walk_chain [OF chain] by (simp add: free_blocks_fields)
  have again: "fat_table fs' x = FAT_ENTRY_FREE" if "x < 65534" "fat_table ?fs1 x = FAT_ENTRY_FREE" for x
  proof -
    have fx: "fat_table ?fs1 x = FAT_ENTRY_FREE \<or> x \<in> unat ` set []" using that(2) by simp
    show ?thesis
      using write_loop_out_of_space [OF wl [unfolded r fs2] _ _ _ _ fx that(1)] tot
      by (simp add: free_blocks_fields)
  qed
  have freed: "fat_table fs' (unat blk) = FAT_ENTRY_FREE" if "blk \<in> set bs" for blk
  proof -
    from is_chain_elems [OF chain that] have "unat blk \<noteq> 65534 \<and> unat blk \<noteq> 65535"
      using unat_inj16 [of blk FAT_ENTRY_EOF] unat_inj16 [of blk FAT_ENTRY_FREE]
      by (simp add: unat_sentinels)
    moreover have "unat blk < 65536" using unsigned_less [of blk, where ?'a = nat] by simp
    ultimately have x: "unat blk < 65534" by simp
    show ?thesis using again [OF x] that by (simp add: fat1)
  qed
  show ?thesis using wl r fs2 rd1 keep freed again by simp
qed

subsection \<open>Writing to the block numbered 65534\<close>

text \<open>
  On a FAT whose first free data block is 65534, \<^verbatim>\<open>write_file("a.txt", "hello")\<close> on the
  empty file of slot 0 succeeds: \<^verbatim>\<open>allocate_block\<close> marks block 65534 as used and returns
  \<^verbatim>\<open>0xFFFE\<close>, and the entry written back has \<^verbatim>\<open>first_block = 0xFFFE\<close> and
  \<^verbatim>\<open>file_size = 5\<close>.
\<close>

lemma write_file_on_block_65534:
  "\<exists>F. write_file (example_fs nearly_full_fat (example_dir (example_entry ''a.txt'' TYPE_FILE 0 FAT_ENTRY_EOF)))
            ''a.txt'' [104, 101, 108, 108, 111] 9 dir_local find_local = (Inr (), F)
       \<and> fat_table F = nearly_full_fat(65534 := FAT_ENTRY_EOF)
       \<and> boot_sector F = example_boot
       \<and> current_dir_block F = 129
       \<and> (\<exists>d'. read_block F 129 = Some (DirB d')
              \<and> whole_entries d' ! 0
                   = (example_entry ''a.txt'' TYPE_FILE 0 FAT_ENTRY_EOF)
                       \<lparr>first_block := FAT_ENTRY_EOF, file_size := 5, modified_time := 9\<rparr>)"
proof -
  let ?e = "example_entry ''a.txt'' TYPE_FILE 0 FAT_ENTRY_EOF"
  let ?d = "example_dir ?e"
  let ?fs = "example_fs nearly_full_fat ?d"
  let ?data = "[104, 101, 108, 108, 111] :: byte list"
  let ?fsA = "snd (allocate_block ?fs)"
  let ?buf = "DataB (\<lambda>i. if i < min 5 BLOCK_SIZE then ?data ! i else 0)"
  let ?e' = "?e\<lparr>first_block := FAT_ENTRY_EOF, file_size := 5, modified_time := 9\<rparr>"
  let ?l = "dir_overlay dir_local (dir_prefix ?d)"
  let ?d' = "?l\<lparr>entries := (entries ?l)(0 := ?e')\<rparr>"
  have rd: "read_block ?fs 129 = Some (DirB (dir_prefix ?d))" by (rule example_fs_read_dir)
  have fnd: "find_file_in_directory ?fs 129 ''a.txt'' find_local = Some 0"
    by (simp add: example_find_file NUL_def)
  have e0: "entries ?l 0 = ?e" by (simp add: overlay_prefix_below example_dir_entry)
  have ff: "first_from (\<lambda>i. fat_table ?fs i = FAT_ENTRY_FREE) (unat (data_start_block (boot_sector ?fs)))
      (unat (total_blocks (boot_sector ?fs))) = Some 65534"
    by (simp add: first_from_Some example_fs_fields nearly_full_fat_def fat_consts)
  from allocate_block_Some [OF ff]
  have alloc: "allocate_block ?fs = (FAT_ENTRY_EOF, ?fsA)"
    and bootA: "boot_sector ?fsA = example_boot" and curA: "current_dir_block ?fsA = 129"
    and fatA: "fat_table ?fsA = nearly_full_fat(65534 := FAT_ENTRY_EOF)"
    by (simp_all add: prod_eq_iff fat_consts example_fs_fields)
  have rdA: "read_block ?fsA 129 = Some (DirB (dir_prefix ?d))"
    using allocate_block_read [of ?fs 129] example_geometry [of ?fs] rd by (simp add: example_fs_fields)
  obtain imgA where imgA: "disk_file ?fsA = Some imgA"
    using allocate_block_disk [OF example_fs_disk, of nearly_full_fat ?d] by blast
  let ?fs3 = "?fsA\<lparr>disk_file := Some (imgA(seek_block 65534 := ?buf))\<rparr>"
  have ue: "unat FAT_ENTRY_EOF = 65534" by (simp add: fat_consts)
  have totA: "unat (total_blocks (boot_sector ?fsA)) = 65536" by (simp add: bootA example_fs_fields)
  have wb: "write_block ?fsA (unat FAT_ENTRY_EOF) ?buf = Some ?fs3"
    using write_block_Some [OF imgA, of 65534 ?buf] by (simp add: totA ue)
  have wl: "write_loop ?fs ?data 5 FAT_ENTRY_EOF FAT_ENTRY_EOF
              = (Inr (FAT_ENTRY_EOF, FAT_ENTRY_EOF), ?fs3)"
    using write_loop_next [of 5 ?fs FAT_ENTRY_EOF ?fsA FAT_ENTRY_EOF ?data ?fs3 FAT_ENTRY_EOF] alloc wb
    by (simp add: write_loop_done BLOCK_SIZE_def)
  obtain img3 where img3: "disk_file ?fs3 = Some img3" by simp
  let ?fs4 = "?fs3\<lparr>disk_file := Some (img3(seek_block 129 := DirB (dir_prefix ?d')))\<rparr>"
  have wd: "write_block ?fs3 129 (DirB (dir_prefix ?d')) = Some ?fs4"
    using write_block_Some [OF img3, of 129 "DirB (dir_prefix ?d')"] by (simp add: totA)
  have wf: "write_file ?fs ''a.txt'' ?data 9 dir_local find_local = (Inr (), flush_fat ?fs4)"
    using rd fnd wl wd e0
    by (simp add: write_file_def Let_def example_fs_fields example_entry_fields
          MAX_FILE_BLOCKS_def BLOCK_SIZE_def curA)
  define F where "F = flush_fat ?fs4"
  have boot4: "boot_sector ?fs4 = example_boot" by (simp add: bootA)
  have rdF: "read_block F 129 = Some (DirB (dir_prefix ?d'))"
    unfolding F_def
    using flush_fat_read [of ?fs4 129] example_geometry [OF boot4] read_after_write [OF wd] by simp
  have fF: "fat_table F = nearly_full_fat(65534 := FAT_ENTRY_EOF)" "boot_sector F = example_boot"
    "current_dir_block F = 129"
    unfolding F_def by (simp_all add: flush_fat_fields fatA bootA curA)
  have "whole_entries (dir_prefix ?d') ! 0 = ?e'" by (simp add: prefix_entry)
  with rdF fF wf show ?thesis unfolding F_def by blast
qed

subsection \<open>The thirteenth file\<close>

text \<open>
  Of the thirteenth file of a directory (slot 12) the block holds the first 16 bytes of
  the name and nothing else. Run with zeroed locals on a root directory with the thirteen
  files \<^verbatim>\<open>a\<close> to \<^verbatim>\<open>m\<close> and a freshly formatted FAT: \<^verbatim>\<open>write_file("m", "hello")\<close>
  succeeds and gives the file the block 130; the \<^verbatim>\<open>first_block = 130\<close> that it assigns
  in its local is not in the block it writes back. \<^verbatim>\<open>delete_file("m")\<close> then succeeds;
  it frees the chain that starts at the \<^verbatim>\<open>first_block\<close> found in its own local (0), and
  block 130 stays in use.
\<close>

lemma thirteenth_file_keeps_block:
  "fat_table (example_fs formatted_fat thirteen_files) 130 = FAT_ENTRY_FREE
   \<and> fst (write_file (example_fs formatted_fat thirteen_files) ''m'' [104, 101, 108, 108, 111] 9
          zero_directory zero_directory) = Inr ()
   \<and> fat_table (snd (write_file (example_fs formatted_fat thirteen_files) ''m''
          [104, 101, 108, 108, 111] 9 zero_directory zero_directory)) 130 = FAT_ENTRY_EOF
   \<and> fst (delete_file (snd (write_file (example_fs formatted_fat thirteen_files) ''m''
          [104, 101, 108, 108, 111] 9 zero_directory zero_directory)) ''m''
          zero_directory zero_directory) = Inr ()
   \<and> fat_table (snd (delete_file (snd (write_file (example_fs formatted_fat thirteen_files) ''m''
          [104, 101, 108, 108, 111] 9 zero_directory zero_directory)) ''m''
          zero_directory zero_directory)) 130 = FAT_ENTRY_EOF"
proof -
  let ?T = "thirteen_files"
  let ?S = "example_fs formatted_fat ?T"
  let ?data = "[104, 101, 108, 108, 111] :: byte list"
  let ?l = "dir_overlay zero_directory (dir_prefix ?T)"
  have rd: "read_block ?S 129 = Some (DirB (dir_prefix ?T))" by (rule example_fs_read_dir)
  have fnd: "find_file_in_directory ?S 129 ''m'' zero_directory = Some 12"
    by (rule thirteen_files_find [OF rd])
  have e12: "type (entries ?l 12) = TYPE_FILE" "first_block (entries ?l 12) = 0"
    by (simp_all add: overlay_entry_12 zero_directory_def zero_entry_def TYPE_FILE_def)
  txt \<open>The chain freed first: the one that starts at block 0.\<close>
  define fs1 where "fs1 = free_blocks ?S 0"
  have ne: "(130 :: 16 word) \<noteq> FAT_ENTRY_FREE" "(130 :: 16 word) \<noteq> FAT_ENTRY_EOF"
    "(0 :: 16 word) \<noteq> FAT_ENTRY_EOF" "(0 :: 16 word) \<noteq> FAT_ENTRY_FREE"
    "FAT_ENTRY_BAD \<noteq> FAT_ENTRY_EOF" "FAT_ENTRY_BAD \<noteq> FAT_ENTRY_FREE"
    "unat FAT_ENTRY_BAD = 65533"
    by (simp_all add: fat_consts)
  have "free_walk formatted_fat 0 = free_walk (formatted_fat(0 := FAT_ENTRY_FREE)) FAT_ENTRY_BAD"
    using free_walk_step [of 0 formatted_fat] ne by (simp add: formatted_fat_def)
  also have "\<dots> = free_walk (formatted_fat(0 := FAT_ENTRY_FREE, 65533 := FAT_ENTRY_FREE)) FAT_ENTRY_FREE"
    using free_walk_step [of FAT_ENTRY_BAD "formatted_fat(0 := FAT_ENTRY_FREE)"] ne
    by (simp add: formatted_fat_def)
  also have "\<dots> = formatted_fat(0 := FAT_ENTRY_FREE, 65533 := FAT_ENTRY_FREE)"
    by (simp add: free_walk_stop)
  finally have w0: "free_walk formatted_fat 0
                      = formatted_fat(0 := FAT_ENTRY_FREE, 65533 := FAT_ENTRY_FREE)" .
  have fat1: "fat_table fs1 = formatted_fat(0 := FAT_ENTRY_FREE, 65533 := FAT_ENTRY_FREE)"
    and boot1: "boot_sector fs1 = example_boot" and cur1: "current_dir_block fs1 = 129"
    unfolding fs1_def by (simp_all add: free_blocks_fields example_fs_fields w0)
  have rd1: "read_block fs1 129 = Some (DirB (dir_prefix ?T))"
    unfolding fs1_def
    using free_blocks_read [of ?S 129 0] example_geometry [of ?S] rd by (simp add: example_fs_fields)
  obtain img1 where img1: "disk_file fs1 = Some img1"
    unfolding fs1_def using free_blocks_disk [OF example_fs_disk, of formatted_fat ?T 0] by blast
  txt \<open>The block allocated.\<close>
  define fsA where "fsA = snd (allocate_block fs1)"
  have ff: "first_from (\<lambda>i. fat_table fs1 i = FAT_ENTRY_FREE) (unat (data_start_block (boot_sector fs1)))
      (unat (total_blocks (boot_sector fs1))) = Some 130"
    by (simp add: first_from_Some boot1 fat1 example_fs_fields formatted_fat_def)
  from allocate_block_Some [OF ff]
  have alloc: "allocate_block fs1 = (130, fsA)"
    and bootA: "boot_sector fsA = example_boot" and curA: "current_dir_block fsA = 129"
    and fatA: "fat_table fsA = (fat_table fs1)(130 := FAT_ENTRY_EOF)"
    unfolding fsA_def by (simp_all add: prod_eq_iff boot1 cur1)
  have rdA: "read_block fsA 129 = Some (DirB (dir_prefix ?T))"
    unfolding fsA_def
    using allocate_block_read [of fs1 129] example_geometry [OF boot1] rd1 by simp
  obtain imgA where imgA: "disk_file fsA = Some imgA"
    unfolding fsA_def using allocate_block_disk [OF img1] by blast
  define buf where "buf = DataB (\<lambda>i. if i < min 5 BLOCK_SIZE then ?data ! i else 0)"
  define fs3 where "fs3 = fsA\<lparr>disk_file := Some (imgA(seek_block 130 := buf))\<rparr>"
  have wb: "write_block fsA (unat (130 :: 16 word)) buf = Some fs3"
    unfolding fs3_def using write_block_Some [OF imgA, of 130 buf] by (simp add: bootA example_fs_fields)
  have wl: "write_loop fs1 ?data 5 FAT_ENTRY_EOF FAT_ENTRY_EOF = (Inr (130, 130), fs3)"
    using write_loop_next [of 5 fs1 130 fsA FAT_ENTRY_EOF ?data fs3 FAT_ENTRY_EOF] alloc ne wb
    by (simp add: write_loop_done BLOCK_SIZE_def buf_def)
  have rd3: "read_block fs3 129 = Some (DirB (dir_prefix ?T))"
    using write_block_read_other [OF wb, of 129] rdA by (simp add: seek_block_small)
  have f3: "boot_sector fs3 = example_boot" "current_dir_block fs3 = 129"
    "fat_table fs3 = (fat_table fs1)(130 := FAT_ENTRY_EOF)"
    unfolding fs3_def by (simp_all add: bootA curA fatA)
  txt \<open>The directory written back.\<close>
  let ?fs3' = "fs3\<lparr>fat_table := (fat_table fs3)(130 := FAT_ENTRY_EOF)\<rparr>"
  have cur3: "unat (current_dir_block fs3) = 129" by (simp add: f3)
  let ?e' = "(entries ?l 12)\<lparr>first_block := 130, file_size := 5, modified_time := 9\<rparr>"
  let ?d' = "?l\<lparr>entries := (entries ?l)(12 := ?e')\<rparr>"
  have pfx: "dir_prefix ?d' = dir_prefix ?T"
    by (rule prefix_overlay_upd_above) (simp_all add: thirteen_files_block)
  obtain img3 where img3: "disk_file ?fs3' = Some img3" unfolding fs3_def by simp
  define fs4 where "fs4 = ?fs3'\<lparr>disk_file := Some (img3(seek_block 129 := DirB (dir_prefix ?T)))\<rparr>"
  have wd: "write_block ?fs3' 129 (DirB (dir_prefix ?T)) = Some fs4"
    unfolding fs4_def
    using write_block_Some [OF img3, of 129 "DirB (dir_prefix ?T)"]
    by (simp add: f3 example_fs_fields)
  define F where "F = flush_fat fs4"
  have wf: "write_file ?S ''m'' ?data 9 zero_directory zero_directory = (Inr (), F)"
    using rd fnd e12 wl wd ne pfx cur3
    by (simp add: write_file_def Let_def example_fs_fields MAX_FILE_BLOCKS_def BLOCK_SIZE_def
          fs1_def [symmetric] F_def)
  have f4: "boot_sector fs4 = example_boot" "current_dir_block fs4 = 129"
    "fat_table fs4 = (fat_table fs1)(130 := FAT_ENTRY_EOF)"
    unfolding fs4_def by (simp_all add: f3)
  have fF: "boot_sector F = example_boot" "current_dir_block F = 129"
    "fat_table F = (fat_table fs1)(130 := FAT_ENTRY_EOF)"
    unfolding F_def by (simp_all add: flush_fat_fields f4)
  have rdF: "read_block F (unat (current_dir_block F)) = Some (DirB (dir_prefix ?T))"
    unfolding F_def
    using flush_fat_read [of fs4 129] example_geometry [OF f4(1)] read_after_write [OF wd]
    by (simp add: flush_fat_fields f4)
  txt \<open>The deletion.\<close>
  have fndF: "find_file_in_directory F (unat (current_dir_block F)) ''m'' zero_directory = Some 12"
    by (rule thirteen_files_find [OF rdF])
  have tyF: "type (entries (dir_overlay zero_directory (block_dir (DirB (dir_prefix ?T)))) 12) = TYPE_FILE"
    using e12 by simp
  from delete_file_success [OF rdF fndF tyF]
  obtain G where del: "delete_file F ''m'' zero_directory zero_directory = (Inr (), G)"
    and fatG: "fat_table G = free_walk (fat_table F) 0"
    using e12 by auto
  have "free_walk (fat_table F) 0 = free_walk ((fat_table F)(0 := FAT_ENTRY_FREE)) FAT_ENTRY_FREE"
    using free_walk_step [of 0 "fat_table F"] ne by (simp add: fF fat1)
  then have "free_walk (fat_table F) 0 130 = FAT_ENTRY_EOF"
    by (simp add: free_walk_stop fF fat1)
  then have "fat_table G 130 = FAT_ENTRY_EOF" by (simp add: fatG)
  moreover have "fat_table ?S 130 = FAT_ENTRY_FREE"
    by (simp add: example_fs_fields formatted_fat_def)
  ultimately show ?thesis
    by (simp add: wf del fF)
qed


section \<open>The claims\<close>

subsection \<open>C1: write_file then read_file\<close>

text \<open>
  Claim C1: after a successful \<^verbatim>\<open>write_file(name, data)\<close>, \<^verbatim>\<open>read_file(name)\<close> returns
  the bytes of \<open>data\<close>. Block numbers are 16 bits wide and the image has 65536 blocks, so
  the data blocks 65534 and 65535 have the numbers \<^verbatim>\<open>FAT_ENTRY_EOF\<close> and
  \<^verbatim>\<open>FAT_ENTRY_FREE\<close>. On a FAT whose first free block is 65534, writing "hello" to an
  empty file allocates block 65534, stores \<^verbatim>\<open>first_block = 0xFFFE\<close> and
  \<^verbatim>\<open>file_size = 5\<close> and reports success; \<^verbatim>\<open>read_file\<close> then takes \<^verbatim>\<open>first_block\<close> for
  the end of the chain and returns no byte. The file is in slot 0, so nothing depends on
  what the locals of the two calls held. (When the entry is in one of the slots 0 to 11
  and the blocks needed are found among the free data blocks below 65534, the round trip
  holds: \<open>write_file_read_file_round_trip\<close>.)
\<close>

theorem write_file_last_blocks_read_back_empty:
  "fst (write_file (example_fs nearly_full_fat (example_dir (example_entry ''a.txt'' TYPE_FILE 0 FAT_ENTRY_EOF)))
          ''a.txt'' [104, 101, 108, 108, 111] 9 dir_local find_local) = Inr ()
   \<and> read_file (snd (write_file (example_fs nearly_full_fat (example_dir (example_entry ''a.txt'' TYPE_FILE 0 FAT_ENTRY_EOF)))
          ''a.txt'' [104, 101, 108, 108, 111] 9 dir_local find_local)) ''a.txt'' dir_local' find_local'
       = Inr []"
proof -
  let ?e' = "(example_entry ''a.txt'' TYPE_FILE 0 FAT_ENTRY_EOF)
               \<lparr>first_block := FAT_ENTRY_EOF, file_size := 5, modified_time := 9\<rparr>"
  from write_file_on_block_65534 [of dir_local find_local]
  obtain F d' where wf: "write_file (example_fs nearly_full_fat
          (example_dir (example_entry ''a.txt'' TYPE_FILE 0 FAT_ENTRY_EOF)))
          ''a.txt'' [104, 101, 108, 108, 111] 9 dir_local find_local = (Inr (), F)"
    and curF: "current_dir_block F = 129"
    and rdF: "read_block F 129 = Some (DirB d')"
    and e0: "whole_entries d' ! 0 = ?e'"
    by blast
  have fndF: "find_file_in_directory F 129 ''a.txt'' find_local' = Some 0"
    by (rule find_file_first_slot [OF rdF])
       (simp_all add: e0 example_entry_fields c_string_strcpy strcpy_first NUL_def)
  have eF: "entries (dir_overlay dir_local' d') 0 = ?e'"
    by (simp add: overlay_entry_below e0)
  have "read_file F ''a.txt'' dir_local' find_local' = Inr []"
    using rdF fndF eF
    by (simp add: read_file_def Let_def curF example_entry_fields read_loop_stop)
  then show ?thesis by (simp add: wf)
qed

subsection \<open>C2: file_size and first_block after a successful operation\<close>

text \<open>
  Claim C2: after every successful operation, every file entry has \<^verbatim>\<open>file_size == 0\<close>
  exactly when \<^verbatim>\<open>first_block == EOF\<close>. A successful \<^verbatim>\<open>truncate_file(name, 0)\<close> on a
  file of 1030 bytes (chain 130, 131) leaves a file entry with \<^verbatim>\<open>file_size = 0\<close> whose
  \<^verbatim>\<open>first_block\<close> is not \<^verbatim>\<open>EOF\<close>. The entry is in slot 0: it is what any later
  \<^verbatim>\<open>read_block\<close> of the directory block puts in slot 0 of a local, and nothing depends
  on what the locals held.
\<close>

theorem truncate_file_breaks_size_invariant:
  "fst (truncate_file (example_fs (formatted_fat(130 := 131, 131 := FAT_ENTRY_EOF))
          (example_dir (example_entry ''a.txt'' TYPE_FILE 1030 130))) ''a.txt'' 0 9
          dir_local find_local) = Inr ()
   \<and> type (entries (dir_overlay dir_local' (block_dir (the (read_block (snd (truncate_file
          (example_fs (formatted_fat(130 := 131, 131 := FAT_ENTRY_EOF))
          (example_dir (example_entry ''a.txt'' TYPE_FILE 1030 130))) ''a.txt'' 0 9
          dir_local find_local)) 129)))) 0) = TYPE_FILE
   \<and> file_size (entries (dir_overlay dir_local' (block_dir (the (read_block (snd (truncate_file
          (example_fs (formatted_fat(130 := 131, 131 := FAT_ENTRY_EOF))
          (example_dir (example_entry ''a.txt'' TYPE_FILE 1030 130))) ''a.txt'' 0 9
          dir_local find_local)) 129)))) 0) = 0
   \<and> first_block (entries (dir_overlay dir_local' (block_dir (the (read_block (snd (truncate_file
          (example_fs (formatted_fat(130 := 131, 131 := FAT_ENTRY_EOF))
          (example_dir (example_entry ''a.txt'' TYPE_FILE 1030 130))) ''a.txt'' 0 9
          dir_local find_local)) 129)))) 0) \<noteq> FAT_ENTRY_EOF"
proof -
  let ?e = "example_entry ''a.txt'' TYPE_FILE 1030 130"
  let ?d = "example_dir ?e"
  let ?fs = "example_fs (formatted_fat(130 := 131, 131 := FAT_ENTRY_EOF)) ?d"
  let ?l = "dir_overlay dir_local (block_dir (DirB (dir_prefix ?d)))"
  have rd: "read_block ?fs (unat (current_dir_block ?fs)) = Some (DirB (dir_prefix ?d))"
    by (simp add: example_fs_fields example_fs_read_dir)
  have fnd: "find_file_in_directory ?fs (unat (current_dir_block ?fs)) ''a.txt'' find_local = Some 0"
    by (simp add: example_fs_fields example_find_file NUL_def)
  have e0: "entries ?l 0 = ?e" by (rule example_local_entry)
  from truncate_file_to_zero [OF rd fnd, of dir_local 9]
  obtain fs' where "truncate_file ?fs ''a.txt'' 0 9 dir_local find_local = (Inr (), fs')"
     "read_block fs' (unat (current_dir_block ?fs))
        = Some (DirB (dir_prefix (?l\<lparr>entries := (entries ?l)
                       (0 := (entries ?l 0)\<lparr>file_size := 0, modified_time := 9\<rparr>)\<rparr>)))"
    unfolding e0 by (auto simp: example_entry_fields fat_consts TYPE_FILE_def)
  then show ?thesis
    by (simp add: example_fs_fields overlay_prefix_below example_dir_entry example_entry_fields fat_consts)
qed

subsection \<open>C3: truncate_file to zero bytes\<close>

text \<open>
  Claim C3: on a file with \<^verbatim>\<open>file_size > 0\<close>, a successful
  \<^verbatim>\<open>truncate_file(name, 0)\<close> frees the whole chain and sets \<^verbatim>\<open>first_block\<close> to
  \<^verbatim>\<open>EOF\<close>. The code frees the chain but assigns only \<^verbatim>\<open>file_size\<close> and
  \<^verbatim>\<open>modified_time\<close>. Run on a file of 5 bytes in block 130, in slot 0: the call
  succeeds, entry 130 of the FAT is \<^verbatim>\<open>FREE\<close>, and the entry written back still has
  \<^verbatim>\<open>first_block = 130\<close>, whatever the locals held.
\<close>

theorem truncate_file_zero_keeps_first_block:
  "fst (truncate_file (example_fs (formatted_fat(130 := FAT_ENTRY_EOF))
          (example_dir (example_entry ''a.txt'' TYPE_FILE 5 130))) ''a.txt'' 0 9
          dir_local find_local) = Inr ()
   \<and> fat_table (snd (truncate_file (example_fs (formatted_fat(130 := FAT_ENTRY_EOF))
          (example_dir (example_entry ''a.txt'' TYPE_FILE 5 130))) ''a.txt'' 0 9
          dir_local find_local)) 130 = FAT_ENTRY_FREE
   \<and> first_block (entries (dir_overlay dir_local' (block_dir (the (read_block (snd (truncate_file
          (example_fs (formatted_fat(130 := FAT_ENTRY_EOF))
          (example_dir (example_entry ''a.txt'' TYPE_FILE 5 130))) ''a.txt'' 0 9
          dir_local find_local)) 129)))) 0) = 130"
proof -
  let ?e = "example_entry ''a.txt'' TYPE_FILE 5 130"
  let ?d = "example_dir ?e"
  let ?fs = "example_fs (formatted_fat(130 := FAT_ENTRY_EOF)) ?d"
  let ?l = "dir_overlay dir_local (block_dir (DirB (dir_prefix ?d)))"
  have rd: "read_block ?fs (unat (current_dir_block ?fs)) = Some (DirB (dir_prefix ?d))"
    by (simp add: example_fs_fields example_fs_read_dir)
  have fnd: "find_file_in_directory ?fs (unat (current_dir_block ?fs)) ''a.txt'' find_local = Some 0"
    by (simp add: example_fs_fields example_find_file NUL_def)
  have e0: "entries ?l 0 = ?e" by (rule example_local_entry)
  have fw: "free_walk (formatted_fat(130 := FAT_ENTRY_EOF)) 130 130 = FAT_ENTRY_FREE"
    using free_walk_chain [of "formatted_fat(130 := FAT_ENTRY_EOF)" 130 "[130]"]
    by (simp add: fat_consts)
  from truncate_file_to_zero [OF rd fnd, of dir_local 9]
  obtain fs' where "truncate_file ?fs ''a.txt'' 0 9 dir_local find_local = (Inr (), fs')"
     "fat_table fs' = free_walk (fat_table ?fs) (first_block (entries ?l 0))"
     "read_block fs' (unat (current_dir_block ?fs))
        = Some (DirB (dir_prefix (?l\<lparr>entries := (entries ?l)
                       (0 := (entries ?l 0)\<lparr>file_size := 0, modified_time := 9\<rparr>)\<rparr>)))"
    unfolding e0 by (auto simp: example_entry_fields fat_consts)
  then show ?thesis using fw
    by (simp add: example_fs_fields overlay_prefix_below example_dir_entry example_entry_fields)
qed


subsection \<open>C4: allocate_block\<close>

text \<open>
  Claim C4: when at least one data block is free, \<^verbatim>\<open>allocate_block\<close> succeeds and
  returns the smallest free index, in particular when only block 65535 is free. Run on
  that FAT, the scan finds index 65535 and sets its entry to \<^verbatim>\<open>EOF\<close>, but the
  \<^verbatim>\<open>uint16_t\<close> returned is 0xFFFF, which is \<^verbatim>\<open>FAT_ENTRY_FREE\<close>, the value the callers
  test for "no free blocks".
\<close>

theorem allocate_block_last_block:
  "fat_table (example_fs (\<lambda>i. if i < 130 then FAT_ENTRY_BAD else if i = 65535 then FAT_ENTRY_FREE else FAT_ENTRY_EOF) zero_directory) 65535 = FAT_ENTRY_FREE
   \<and> fst (allocate_block (example_fs (\<lambda>i. if i < 130 then FAT_ENTRY_BAD else if i = 65535 then FAT_ENTRY_FREE else FAT_ENTRY_EOF) zero_directory)) = FAT_ENTRY_FREE
   \<and> fat_table (snd (allocate_block (example_fs (\<lambda>i. if i < 130 then FAT_ENTRY_BAD else if i = 65535 then FAT_ENTRY_FREE else FAT_ENTRY_EOF) zero_directory))) 65535 = FAT_ENTRY_EOF"
proof -
  let ?fs = "example_fs (\<lambda>i. if i < 130 then FAT_ENTRY_BAD else if i = 65535 then FAT_ENTRY_FREE else FAT_ENTRY_EOF) zero_directory"
  have "first_from (\<lambda>i. fat_table ?fs i = FAT_ENTRY_FREE) (unat (data_start_block (boot_sector ?fs)))
      (unat (total_blocks (boot_sector ?fs))) = Some 65535"
    by (simp add: first_from_Some example_fs_fields fat_consts)
  from allocate_block_Some [OF this] show ?thesis
    by (simp add: example_fs_fields fat_consts)
qed


subsection \<open>C5: free_blocks\<close>

text \<open>
  Claim C5, as stated: \<^verbatim>\<open>free_blocks\<close> never follows a \<^verbatim>\<open>BAD\<close> next pointer, and the
  entry at index \<^verbatim>\<open>BAD\<close> is never modified. The loop tests \<^verbatim>\<open>EOF\<close> and \<^verbatim>\<open>FREE\<close>
  only. In the FAT below block 130 links to \<^verbatim>\<open>BAD\<close> (0xFFFD) and block 65533 is in use:
  the walk from 130 goes on to index 65533 and frees it.
\<close>

theorem free_blocks_follows_bad:
  "fat_table (free_blocks (example_fs (formatted_fat(130 := FAT_ENTRY_BAD, 65533 := FAT_ENTRY_EOF)) zero_directory) 130)
       (unat FAT_ENTRY_BAD) = FAT_ENTRY_FREE
   \<and> fat_table (example_fs (formatted_fat(130 := FAT_ENTRY_BAD, 65533 := FAT_ENTRY_EOF)) zero_directory)
       (unat FAT_ENTRY_BAD) = FAT_ENTRY_EOF"
proof -
  let ?fat = "formatted_fat(130 := FAT_ENTRY_BAD, 65533 := FAT_ENTRY_EOF)"
  have "free_walk ?fat 130 = free_walk (?fat(130 := FAT_ENTRY_FREE)) FAT_ENTRY_BAD"
    using free_walk_step [of 130 ?fat] by (simp add: fat_consts)
  also have "\<dots> = free_walk (?fat(130 := FAT_ENTRY_FREE, 65533 := FAT_ENTRY_FREE)) FAT_ENTRY_EOF"
    using free_walk_step [of FAT_ENTRY_BAD "?fat(130 := FAT_ENTRY_FREE)"] by (simp add: fat_consts)
  also have "\<dots> = ?fat(130 := FAT_ENTRY_FREE, 65533 := FAT_ENTRY_FREE)"
    by (simp add: free_walk_stop)
  finally show ?thesis
    by (simp add: free_blocks_fields example_fs_fields fat_consts)
qed

text \<open>
  Claim C5, amended: \<^verbatim>\<open>free_blocks(head)\<close> ends for every FAT and every head; it sets
  to \<^verbatim>\<open>FREE\<close> exactly the entries of the blocks its walk visits and leaves every other
  entry as it was; the walk stops when the current block is \<^verbatim>\<open>EOF\<close> or \<^verbatim>\<open>FREE\<close>, so
  a call with \<^verbatim>\<open>EOF\<close> changes nothing; \<^verbatim>\<open>BAD\<close> is followed like any block number (a
  call with head \<^verbatim>\<open>BAD\<close> frees entry 65533).
\<close>

theorem free_blocks_walk:
  "(\<exists>bs. walk_of (fat_table fs) head bs
        \<and> fat_table (free_blocks fs head)
            = (\<lambda>i. if i \<in> set bs then FAT_ENTRY_FREE else fat_table fs i))
   \<and> fat_table (free_blocks fs FAT_ENTRY_EOF) = fat_table fs
   \<and> fat_table (free_blocks fs FAT_ENTRY_BAD) (unat FAT_ENTRY_BAD) = FAT_ENTRY_FREE"
proof -
  have "fat_table (free_blocks fs FAT_ENTRY_BAD) (unat FAT_ENTRY_BAD) = FAT_ENTRY_FREE"
  proof -
    obtain bs where bs: "walk_of (fat_table fs) FAT_ENTRY_BAD bs"
      "free_walk (fat_table fs) FAT_ENTRY_BAD = (\<lambda>i. if i \<in> set bs then FAT_ENTRY_FREE else fat_table fs i)"
      using free_walk_walk_of by blast
    from bs(1) have "unat FAT_ENTRY_BAD \<in> set bs" by (cases bs) (auto simp: fat_consts)
    with bs(2) show ?thesis by (simp add: free_blocks_fields)
  qed
  then show ?thesis
    using free_walk_walk_of [of "fat_table fs" head]
    by (simp add: free_blocks_fields free_walk_stop)
qed

subsection \<open>C6: truncate_file refuses to grow\<close>

text \<open>
  Claim C6: on an existing file, \<^verbatim>\<open>truncate_file(name, new_size)\<close> fails with
  \<^verbatim>\<open>Grow\<close> when \<^verbatim>\<open>new_size > file_size\<close> and succeeds when
  \<^verbatim>\<open>new_size == file_size\<close>; in both cases the whole state is returned unchanged.
  The file is the entry that the function holds for \<open>name\<close>: the slot returned by
  \<^verbatim>\<open>find_file_in_directory\<close> in its local \<^verbatim>\<open>dir\<close> after \<^verbatim>\<open>read_block\<close>, whatever
  the locals held before.
\<close>

theorem truncate_file_grow_and_same:
  assumes "read_block fs (unat (current_dir_block fs)) = Some b"
    and "find_file_in_directory fs (unat (current_dir_block fs)) name find_local = Some idx"
    and "type (entries (dir_overlay dir_local (block_dir b)) idx) = TYPE_FILE"
  shows "(new_size > file_size (entries (dir_overlay dir_local (block_dir b)) idx)
            \<longrightarrow> truncate_file fs name new_size now dir_local find_local = (Inl Grow, fs))
       \<and> (new_size = file_size (entries (dir_overlay dir_local (block_dir b)) idx)
            \<longrightarrow> truncate_file fs name new_size now dir_local find_local = (Inr (), fs))"
  using assms by (simp add: truncate_file_def Let_def)

text \<open>
  The theorem at a file of 5 bytes, with zeroed locals: truncating to 9 is refused,
  truncating to 5 succeeds.
\<close>

theorem truncate_file_grow_and_same_witness:
  "truncate_file (example_fs (formatted_fat(130 := FAT_ENTRY_EOF)) (example_dir (example_entry ''a.txt'' TYPE_FILE 5 130)))
      ''a.txt'' 9 7 zero_directory zero_directory
     = (Inl Grow, example_fs (formatted_fat(130 := FAT_ENTRY_EOF)) (example_dir (example_entry ''a.txt'' TYPE_FILE 5 130)))
   \<and> truncate_file (example_fs (formatted_fat(130 := FAT_ENTRY_EOF)) (example_dir (example_entry ''a.txt'' TYPE_FILE 5 130)))
      ''a.txt'' 5 7 zero_directory zero_directory
     = (Inr (), example_fs (formatted_fat(130 := FAT_ENTRY_EOF)) (example_dir (example_entry ''a.txt'' TYPE_FILE 5 130)))"
proof -
  let ?d = "example_dir (example_entry ''a.txt'' TYPE_FILE 5 130)"
  let ?fs = "example_fs (formatted_fat(130 := FAT_ENTRY_EOF)) ?d"
  let ?l = "dir_overlay zero_directory (block_dir (DirB (dir_prefix ?d)))"
  have rd: "read_block ?fs (unat (current_dir_block ?fs)) = Some (DirB (dir_prefix ?d))"
    by (simp add: example_fs_fields example_fs_read_dir)
  have fnd: "find_file_in_directory ?fs (unat (current_dir_block ?fs)) ''a.txt'' zero_directory = Some 0"
    by (simp add: example_fs_fields example_find_file NUL_def)
  have e0: "entries ?l 0 = example_entry ''a.txt'' TYPE_FILE 5 130" by (rule example_local_entry)
  have ty: "type (entries ?l 0) = TYPE_FILE" unfolding e0 by (simp add: example_entry_fields)
  have sz: "file_size (entries ?l 0) = 5" unfolding e0 by (simp add: example_entry_fields)
  from truncate_file_grow_and_same [OF rd fnd ty, of 9 7] truncate_file_grow_and_same [OF rd fnd ty, of 5 7] sz
  show ?thesis by simp
qed


subsection \<open>C7: read_file and the length of the chain\<close>

text \<open>
  Claim C7, as stated: \<^verbatim>\<open>read_file\<close> fails when the chain from \<^verbatim>\<open>first_block\<close> is
  shorter or longer than \<^verbatim>\<open>ceil(file_size / BLOCK_SIZE)\<close>. The loop has no such test.
  A file of 1025 bytes whose chain is the single block 130 is read with success, as the
  1024 bytes of that block; a file of 5 bytes whose chain is 130, 131 is read with
  success, as 5 bytes. (The files are in slot 0 and the locals are zeroed.)
\<close>

theorem read_file_ignores_chain_length:
  "read_file (example_fs (formatted_fat(130 := FAT_ENTRY_EOF))
       (example_dir (example_entry ''a.txt'' TYPE_FILE 1025 130))) ''a.txt''
       zero_directory zero_directory = Inr (replicate 1024 0)
   \<and> read_file (example_fs (formatted_fat(130 := 131, 131 := FAT_ENTRY_EOF))
       (example_dir (example_entry ''a.txt'' TYPE_FILE 5 130))) ''a.txt''
       zero_directory zero_directory = Inr (replicate 5 0)"
proof -
  have a: "read_loop (example_fs (formatted_fat(130 := FAT_ENTRY_EOF))
       (example_dir (example_entry ''a.txt'' TYPE_FILE 1025 130))) 130 1025 = Inr (replicate 1024 0)"
    using example_read_loop [of "formatted_fat(130 := FAT_ENTRY_EOF)" 130 "[130]" FAT_ENTRY_EOF 1025]
    by (simp add: fat_consts BLOCK_SIZE_def)
  have b: "read_loop (example_fs (formatted_fat(130 := 131, 131 := FAT_ENTRY_EOF))
       (example_dir (example_entry ''a.txt'' TYPE_FILE 5 130))) 130 5 = Inr (replicate 5 0)"
    using example_read_loop [of "formatted_fat(130 := 131, 131 := FAT_ENTRY_EOF)" 130 "[130, 131]" FAT_ENTRY_EOF 5]
    by (simp add: fat_consts BLOCK_SIZE_def)
  show ?thesis
    using a b
    by (simp add: read_file_def Let_def example_fs_fields example_fs_read_dir example_find_file
          overlay_prefix_below example_dir_entry example_entry_fields NUL_def)
qed

text \<open>
  Claim C7, amended: \<^verbatim>\<open>read_file\<close> on an existing file (the entry that the function
  holds for \<open>name\<close> in its local \<^verbatim>\<open>dir\<close>) does not compare the length of
  the chain with \<^verbatim>\<open>file_size\<close>. For blocks \<open>bs\<close> on the chain from \<^verbatim>\<open>first_block\<close>, all
  below \<^verbatim>\<open>total_blocks\<close>, such that the chain ends with \<^verbatim>\<open>EOF\<close> after \<open>bs\<close> or \<open>bs\<close>
  holds at least \<^verbatim>\<open>file_size\<close> bytes, it succeeds and returns the first \<^verbatim>\<open>file_size\<close>
  bytes of the blocks of \<open>bs\<close> put end to end: all of them, fewer than \<^verbatim>\<open>file_size\<close>,
  when the chain is too short, and nothing of the blocks after the first
  \<^verbatim>\<open>ceil(file_size / BLOCK_SIZE)\<close> when it is too long.
\<close>

theorem read_file_follows_chain:
  assumes img: "disk_file fs = Some img"
    and rd: "read_block fs (unat (current_dir_block fs)) = Some b"
    and fnd: "find_file_in_directory fs (unat (current_dir_block fs)) name find_local = Some idx"
    and ty: "type (entries (dir_overlay dir_local (block_dir b)) idx) = TYPE_FILE"
    and path: "fat_path (fat_table fs)
                 (first_block (entries (dir_overlay dir_local (block_dir b)) idx)) bs t"
    and range: "\<forall>blk \<in> set bs. unat blk < unat (total_blocks (boot_sector fs))"
    and stop: "t = FAT_ENTRY_EOF
                 \<or> unat (file_size (entries (dir_overlay dir_local (block_dir b)) idx))
                      \<le> BLOCK_SIZE * length bs"
  shows "read_file fs name dir_local find_local
           = Inr (take (unat (file_size (entries (dir_overlay dir_local (block_dir b)) idx)))
                   (concat (map (\<lambda>blk. map (block_bytes (img (seek_block (unat blk)))) [0..<BLOCK_SIZE]) bs)))"
proof (cases "file_size (entries (dir_overlay dir_local (block_dir b)) idx) = 0")
  case True
  then show ?thesis using rd fnd ty by (simp add: read_file_def Let_def)
next
  case False
  then show ?thesis
    using rd fnd ty read_loop_path [OF img path range stop]
    by (simp add: read_file_def Let_def)
qed

text \<open>
  The theorem at the file of 1025 bytes whose chain is the single block 130, with zeroed
  locals.
\<close>

theorem read_file_follows_chain_witness:
  "read_file (example_fs (formatted_fat(130 := FAT_ENTRY_EOF))
       (example_dir (example_entry ''a.txt'' TYPE_FILE 1025 130))) ''a.txt''
       zero_directory zero_directory
     = Inr (take 1025 (concat (map (\<lambda>blk. map (block_bytes (((\<lambda>n. DataB (\<lambda>i. 0))
              (129 := DirB (dir_prefix (example_dir (example_entry ''a.txt'' TYPE_FILE 1025 130)))))
                 (seek_block (unat blk))))
              [0..<BLOCK_SIZE]) [130 :: 16 word])))"
proof -
  let ?d = "example_dir (example_entry ''a.txt'' TYPE_FILE 1025 130)"
  let ?fs = "example_fs (formatted_fat(130 := FAT_ENTRY_EOF)) ?d"
  let ?l = "dir_overlay zero_directory (block_dir (DirB (dir_prefix ?d)))"
  have rd: "read_block ?fs (unat (current_dir_block ?fs)) = Some (DirB (dir_prefix ?d))"
    by (simp add: example_fs_fields example_fs_read_dir)
  have fnd: "find_file_in_directory ?fs (unat (current_dir_block ?fs)) ''a.txt'' zero_directory = Some 0"
    by (simp add: example_fs_fields example_find_file NUL_def)
  have e0: "entries ?l 0 = example_entry ''a.txt'' TYPE_FILE 1025 130" by (rule example_local_entry)
  have ty: "type (entries ?l 0) = TYPE_FILE"
    unfolding e0 by (simp add: example_entry_fields)
  have path: "fat_path (fat_table ?fs) (first_block (entries ?l 0)) [130] FAT_ENTRY_EOF"
    unfolding e0 by (simp add: example_fs_fields example_entry_fields fat_consts)
  have range: "\<forall>blk \<in> set [130 :: 16 word]. unat blk < unat (total_blocks (boot_sector ?fs))"
    by (simp add: example_fs_fields)
  have stop: "FAT_ENTRY_EOF = FAT_ENTRY_EOF
      \<or> unat (file_size (entries ?l 0)) \<le> BLOCK_SIZE * length [130 :: 16 word]"
    by simp
  have sz: "unat (file_size (entries ?l 0)) = 1025"
    unfolding e0 by (simp add: example_entry_fields)
  from read_file_follows_chain [OF example_fs_disk rd fnd ty path range stop]
  show ?thesis unfolding sz .
qed
subsection \<open>C8: delete_file\<close>

text \<open>
  Claim C8: after a successful \<^verbatim>\<open>delete_file(name)\<close> on a file, every block that was
  allocated to the file is \<^verbatim>\<open>FREE\<close> in the FAT and the directory slot is zeroed. For a
  file in one of the slots 0 to 11 whose chain ends with \<^verbatim>\<open>EOF\<close> this holds
  (\<open>delete_file_slot_in_block\<close>). Block 65534 has the number \<^verbatim>\<open>FAT_ENTRY_EOF\<close>. On a FAT
  whose first free data block is 65534, \<^verbatim>\<open>write_file("a.txt", "hello")\<close> on the empty file
  of slot 0 succeeds, marks block 65534 as used and stores \<^verbatim>\<open>first_block = 0xFFFE\<close>;
  \<^verbatim>\<open>delete_file("a.txt")\<close> then succeeds and zeroes the slot, but it takes
  \<^verbatim>\<open>first_block\<close> for the empty chain and frees nothing: block 65534 stays in use,
  whatever the locals of the two calls held. (The thirteenth file of a directory loses its
  blocks in another way: \<open>thirteenth_file_keeps_block\<close>.)
\<close>

theorem delete_file_keeps_block_65534:
  "fat_table (example_fs nearly_full_fat (example_dir (example_entry ''a.txt'' TYPE_FILE 0 FAT_ENTRY_EOF)))
       65534 = FAT_ENTRY_FREE
   \<and> fst (write_file (example_fs nearly_full_fat (example_dir (example_entry ''a.txt'' TYPE_FILE 0 FAT_ENTRY_EOF)))
          ''a.txt'' [104, 101, 108, 108, 111] 9 dir_local find_local) = Inr ()
   \<and> fat_table (snd (write_file (example_fs nearly_full_fat (example_dir (example_entry ''a.txt'' TYPE_FILE 0 FAT_ENTRY_EOF)))
          ''a.txt'' [104, 101, 108, 108, 111] 9 dir_local find_local)) 65534 = FAT_ENTRY_EOF
   \<and> fst (delete_file (snd (write_file (example_fs nearly_full_fat (example_dir (example_entry ''a.txt'' TYPE_FILE 0 FAT_ENTRY_EOF)))
          ''a.txt'' [104, 101, 108, 108, 111] 9 dir_local find_local))
          ''a.txt'' dir_local' find_local') = Inr ()
   \<and> whole_entries (block_dir (the (read_block (snd (delete_file (snd (write_file
          (example_fs nearly_full_fat (example_dir (example_entry ''a.txt'' TYPE_FILE 0 FAT_ENTRY_EOF)))
          ''a.txt'' [104, 101, 108, 108, 111] 9 dir_local find_local))
          ''a.txt'' dir_local' find_local')) 129))) ! 0 = zero_entry
   \<and> fat_table (snd (delete_file (snd (write_file (example_fs nearly_full_fat (example_dir (example_entry ''a.txt'' TYPE_FILE 0 FAT_ENTRY_EOF)))
          ''a.txt'' [104, 101, 108, 108, 111] 9 dir_local find_local))
          ''a.txt'' dir_local' find_local')) 65534 = FAT_ENTRY_EOF"
proof -
  let ?fs = "example_fs nearly_full_fat (example_dir (example_entry ''a.txt'' TYPE_FILE 0 FAT_ENTRY_EOF))"
  let ?e' = "(example_entry ''a.txt'' TYPE_FILE 0 FAT_ENTRY_EOF)
               \<lparr>first_block := FAT_ENTRY_EOF, file_size := 5, modified_time := 9\<rparr>"
  from write_file_on_block_65534 [of dir_local find_local]
  obtain F d' where wf: "write_file ?fs ''a.txt'' [104, 101, 108, 108, 111] 9 dir_local find_local
                           = (Inr (), F)"
    and fatF: "fat_table F = nearly_full_fat(65534 := FAT_ENTRY_EOF)"
    and curF: "current_dir_block F = 129"
    and rdF: "read_block F 129 = Some (DirB d')"
    and e0: "whole_entries d' ! 0 = ?e'"
    by blast
  have rdF': "read_block F (unat (current_dir_block F)) = Some (DirB d')"
    using rdF by (simp add: curF)
  have fndF: "find_file_in_directory F (unat (current_dir_block F)) ''a.txt'' find_local' = Some 0"
    unfolding curF using find_file_first_slot [OF rdF, of "''a.txt''" find_local']
    by (simp add: e0 example_entry_fields c_string_strcpy strcpy_first NUL_def)
  have eF: "entries (dir_overlay dir_local' (block_dir (DirB d'))) 0 = ?e'"
    by (simp add: overlay_entry_below e0)
  have tyF: "type (entries (dir_overlay dir_local' (block_dir (DirB d'))) 0) = TYPE_FILE"
    unfolding eF by (simp add: example_entry_fields)
  from delete_file_success [OF rdF' fndF tyF]
  obtain G where del: "delete_file F ''a.txt'' dir_local' find_local' = (Inr (), G)"
    and fatG: "fat_table G = free_walk (fat_table F) FAT_ENTRY_EOF"
    and rdG: "read_block G 129
               = Some (DirB (dir_prefix ((dir_overlay dir_local' (block_dir (DirB d')))
                    \<lparr>entries := (entries (dir_overlay dir_local' (block_dir (DirB d'))))(0 := zero_entry),
                     entry_count := entry_count (dir_overlay dir_local' (block_dir (DirB d'))) - 1\<rparr>)))"
    unfolding eF curF by auto
  have "fat_table G 65534 = FAT_ENTRY_EOF"
    by (simp add: fatG free_walk_stop fatF)
  moreover have "fat_table ?fs 65534 = FAT_ENTRY_FREE"
    by (simp add: example_fs_fields nearly_full_fat_def)
  moreover have "whole_entries (block_dir (the (read_block G 129))) ! 0 = zero_entry"
    by (simp add: rdG prefix_entry)
  ultimately show ?thesis
    by (simp add: wf del fatF)
qed

subsection \<open>C9: format\<close>


subsection \<open>C10: write_file is not atomic when the image is full\<close>

text \<open>
  Claim C10: on a file with \<^verbatim>\<open>first_block != EOF\<close>, \<^verbatim>\<open>write_file\<close> frees the old chain
  before it allocates; when an allocation then fails it frees the partial new chain and
  returns an error without rewriting the directory entry, so that the entry on disk
  still holds the old \<^verbatim>\<open>first_block\<close> and \<^verbatim>\<open>file_size\<close> while those blocks are
  \<^verbatim>\<open>FREE\<close>. The old chain is freed, the directory block is not rewritten, and every
  block below 65534 that the loop allocated is freed again
  (\<open>write_file_out_of_space\<close>). Block 65534 has the number \<^verbatim>\<open>FAT_ENTRY_EOF\<close>:
  once it is linked into the new chain, \<^verbatim>\<open>free_blocks\<close> takes the link for the end of
  the chain. On a FAT whose only free data block is 65534, a file of 5 bytes in block 130
  (slot 0) is overwritten with 2049 bytes: the old chain is freed, the blocks 130 and
  65534 are allocated, the third allocation fails, and \<^verbatim>\<open>free_blocks(130)\<close> frees block
  130 only. The call fails with \<^verbatim>\<open>OutOfSpace\<close>, the directory block is not rewritten,
  block 130 is free, and block 65534, free when the loop started, stays in use.
\<close>

theorem write_file_out_of_space_keeps_last_block:
  "fst (write_file (example_fs last_free_fat (example_dir (example_entry ''a.txt'' TYPE_FILE 5 130)))
          ''a.txt'' (replicate 2049 65) 9 dir_local find_local) = Inl OutOfSpace
   \<and> read_block (snd (write_file (example_fs last_free_fat (example_dir (example_entry ''a.txt'' TYPE_FILE 5 130)))
          ''a.txt'' (replicate 2049 65) 9 dir_local find_local)) 129
        = Some (DirB (dir_prefix (example_dir (example_entry ''a.txt'' TYPE_FILE 5 130))))
   \<and> fat_table (snd (write_file (example_fs last_free_fat (example_dir (example_entry ''a.txt'' TYPE_FILE 5 130)))
          ''a.txt'' (replicate 2049 65) 9 dir_local find_local)) 130 = FAT_ENTRY_FREE
   \<and> fat_table (free_blocks (example_fs last_free_fat (example_dir (example_entry ''a.txt'' TYPE_FILE 5 130))) 130)
          65534 = FAT_ENTRY_FREE
   \<and> fat_table (snd (write_file (example_fs last_free_fat (example_dir (example_entry ''a.txt'' TYPE_FILE 5 130)))
          ''a.txt'' (replicate 2049 65) 9 dir_local find_local)) 65534 = FAT_ENTRY_EOF"
proof -
  let ?e = "example_entry ''a.txt'' TYPE_FILE 5 130"
  let ?d = "example_dir ?e"
  let ?fs = "example_fs last_free_fat ?d"
  let ?data = "replicate 2049 65 :: byte list"
  let ?l = "dir_overlay dir_local (block_dir (DirB (dir_prefix ?d)))"
  have rd: "read_block ?fs (unat (current_dir_block ?fs)) = Some (DirB (dir_prefix ?d))"
    by (simp add: example_fs_fields example_fs_read_dir)
  have fnd: "find_file_in_directory ?fs (unat (current_dir_block ?fs)) ''a.txt'' find_local = Some 0"
    by (simp add: example_fs_fields example_find_file NUL_def)
  have e0: "entries ?l 0 = ?e" by (rule example_local_entry)
  have ne: "(130 :: 16 word) \<noteq> FAT_ENTRY_FREE" "(130 :: 16 word) \<noteq> FAT_ENTRY_EOF"
    "unat FAT_ENTRY_EOF = 65534"
    by (simp_all add: fat_consts)
  txt \<open>The old chain is freed.\<close>
  define fs1 where "fs1 = free_blocks ?fs 130"
  have "free_walk last_free_fat 130 = free_walk (last_free_fat(130 := FAT_ENTRY_FREE)) FAT_ENTRY_EOF"
    using free_walk_step [of 130 last_free_fat] ne by (simp add: last_free_fat_def)
  then have fat1: "fat_table fs1 = last_free_fat(130 := FAT_ENTRY_FREE)"
    unfolding fs1_def by (simp add: free_blocks_fields example_fs_fields free_walk_stop)
  have f1: "boot_sector fs1 = example_boot" "current_dir_block fs1 = 129"
    unfolding fs1_def by (simp_all add: free_blocks_fields example_fs_fields)
  have rd1: "read_block fs1 129 = Some (DirB (dir_prefix ?d))"
    unfolding fs1_def
    using free_blocks_read [of ?fs 129 130] example_geometry [of ?fs] rd by (simp add: example_fs_fields)
  obtain img1 where img1: "disk_file fs1 = Some img1"
    unfolding fs1_def using free_blocks_disk [OF example_fs_disk, of last_free_fat ?d 130] by blast
  txt \<open>First block of the new chain: 130.\<close>
  have ff1: "first_from (\<lambda>i. fat_table fs1 i = FAT_ENTRY_FREE) (unat (data_start_block (boot_sector fs1)))
      (unat (total_blocks (boot_sector fs1))) = Some 130"
    by (simp add: first_from_Some fat1 f1 example_fs_fields)
  define fsA where "fsA = snd (allocate_block fs1)"
  from allocate_block_Some [OF ff1]
  have alloc1: "allocate_block fs1 = (130, fsA)"
    and fA: "fat_table fsA = (fat_table fs1)(130 := FAT_ENTRY_EOF)"
      "boot_sector fsA = example_boot" "current_dir_block fsA = 129"
    unfolding fsA_def by (simp_all add: prod_eq_iff f1)
  have rdA: "read_block fsA 129 = Some (DirB (dir_prefix ?d))"
    unfolding fsA_def using allocate_block_read [of fs1 129] example_geometry [OF f1(1)] rd1 by simp
  obtain imgA where imgA: "disk_file fsA = Some imgA"
    unfolding fsA_def using allocate_block_disk [OF img1] by blast
  define buf where "buf = DataB (\<lambda>i. if i < min 2049 BLOCK_SIZE then ?data ! i else 0)"
  define fs3 where "fs3 = fsA\<lparr>disk_file := Some (imgA(seek_block 130 := buf))\<rparr>"
  have wb: "write_block fsA (unat (130 :: 16 word)) buf = Some fs3"
    unfolding fs3_def using write_block_Some [OF imgA, of 130 buf] by (simp add: fA example_fs_fields)
  have step1: "write_loop fs1 ?data 2049 FAT_ENTRY_EOF FAT_ENTRY_EOF
                 = write_loop fs3 (drop 1024 ?data) 1025 130 130"
    using write_loop_next [of 2049 fs1 130 fsA FAT_ENTRY_EOF ?data fs3 FAT_ENTRY_EOF] alloc1 ne wb
    by (simp add: buf_def BLOCK_SIZE_def)
  have f3: "fat_table fs3 = last_free_fat(130 := FAT_ENTRY_EOF)"
    "boot_sector fs3 = example_boot" "current_dir_block fs3 = 129"
    unfolding fs3_def by (simp_all add: fA fat1)
  have rd3: "read_block fs3 129 = Some (DirB (dir_prefix ?d))"
    using write_block_read_other [OF wb, of 129] rdA by (simp add: seek_block_small)
  obtain img3 where img3: "disk_file fs3 = Some img3" unfolding fs3_def by simp
  txt \<open>Second block: 65534, returned as \<^verbatim>\<open>0xFFFE\<close>.\<close>
  have ff3: "first_from (\<lambda>i. fat_table fs3 i = FAT_ENTRY_FREE) (unat (data_start_block (boot_sector fs3)))
      (unat (total_blocks (boot_sector fs3))) = Some 65534"
    by (simp add: first_from_Some f3 example_fs_fields last_free_fat_def fat_consts)
  define fsB where "fsB = snd (allocate_block fs3)"
  from allocate_block_Some [OF ff3]
  have alloc3: "allocate_block fs3 = (FAT_ENTRY_EOF, fsB)"
    and fB: "fat_table fsB = (fat_table fs3)(65534 := FAT_ENTRY_EOF)"
      "boot_sector fsB = example_boot" "current_dir_block fsB = 129"
    unfolding fsB_def by (simp_all add: prod_eq_iff f3 fat_consts)
  have rdB: "read_block fsB 129 = Some (DirB (dir_prefix ?d))"
    unfolding fsB_def using allocate_block_read [of fs3 129] example_geometry [OF f3(2)] rd3 by simp
  obtain imgB where imgB: "disk_file fsB = Some imgB"
    unfolding fsB_def using allocate_block_disk [OF img3] by blast
  define fsB' where "fsB' = fsB\<lparr>fat_table := (fat_table fsB)(unat (130 :: 16 word) := FAT_ENTRY_EOF)\<rparr>"
  define buf' where "buf' = DataB (\<lambda>i. if i < min 1025 BLOCK_SIZE then drop 1024 ?data ! i else 0)"
  define fs5 where "fs5 = fsB'\<lparr>disk_file := Some (imgB(seek_block 65534 := buf'))\<rparr>"
  have wb': "write_block fsB' (unat FAT_ENTRY_EOF) buf' = Some fs5"
    unfolding fs5_def fsB'_def
    using write_block_Some [of "fsB\<lparr>fat_table := (fat_table fsB)(unat (130 :: 16 word) := FAT_ENTRY_EOF)\<rparr>"
        imgB 65534 buf'] imgB
    by (simp add: fB ne example_fs_fields)
  have step2: "write_loop fs3 (drop 1024 ?data) 1025 130 130
                 = write_loop fs5 (drop 1024 (drop 1024 ?data)) 1 130 FAT_ENTRY_EOF"
    using write_loop_next [of 1025 fs3 FAT_ENTRY_EOF fsB 130 "drop 1024 ?data" fs5 130] alloc3 ne wb'
    by (simp add: buf'_def fsB'_def BLOCK_SIZE_def)
  have f5: "fat_table fs5 = last_free_fat(130 := FAT_ENTRY_EOF, 65534 := FAT_ENTRY_EOF)"
    "boot_sector fs5 = example_boot" "current_dir_block fs5 = 129"
    unfolding fs5_def fsB'_def by (simp_all add: fB f3 fun_upd_twist)
  have rd5: "read_block fs5 129 = Some (DirB (dir_prefix ?d))"
    using write_block_read_other [OF wb', of 129] rdB
    by (simp add: ne seek_block_small fsB'_def)
  txt \<open>No third block; \<^verbatim>\<open>free_blocks(130)\<close> stops at the link \<^verbatim>\<open>0xFFFE\<close>.\<close>
  have ff5: "first_from (\<lambda>i. fat_table fs5 i = FAT_ENTRY_FREE) (unat (data_start_block (boot_sector fs5)))
      (unat (total_blocks (boot_sector fs5))) = None"
    by (simp add: first_from_None f5 example_fs_fields last_free_fat_def fat_consts)
  have step3: "write_loop fs5 (drop 1024 (drop 1024 ?data)) 1 130 FAT_ENTRY_EOF
                 = (Inl OutOfSpace, free_blocks fs5 130)"
    using write_loop_no_space [OF _ allocate_block_None [OF ff5], of 1
        "drop 1024 (drop 1024 ?data)" 130 FAT_ENTRY_EOF] ne
    by simp
  define G where "G = free_blocks fs5 130"
  have "free_walk (fat_table fs5) 130 = free_walk ((fat_table fs5)(130 := FAT_ENTRY_FREE)) FAT_ENTRY_EOF"
    using free_walk_step [of 130 "fat_table fs5"] ne by (simp add: f5)
  then have fatG: "fat_table G = (fat_table fs5)(130 := FAT_ENTRY_FREE)"
    unfolding G_def by (simp add: free_blocks_fields free_walk_stop)
  have rdG: "read_block G 129 = Some (DirB (dir_prefix ?d))"
    unfolding G_def
    using free_blocks_read [of fs5 129 130] example_geometry [OF f5(2)] rd5 by simp
  have wl: "write_loop fs1 ?data 2049 FAT_ENTRY_EOF FAT_ENTRY_EOF = (Inl OutOfSpace, G)"
    using step1 step2 step3 by (simp add: G_def)
  have wf: "write_file ?fs ''a.txt'' ?data 9 dir_local find_local = (Inl OutOfSpace, G)"
    using rd fnd wl e0
    by (simp add: write_file_def Let_def example_entry_fields fat_consts TYPE_FILE_def
          MAX_FILE_BLOCKS_def BLOCK_SIZE_def fs1_def)
  have "fat_table G 130 = FAT_ENTRY_FREE" "fat_table G 65534 = FAT_ENTRY_EOF"
    by (simp_all add: fatG f5)
  moreover have "fat_table fs1 65534 = FAT_ENTRY_FREE"
    by (simp add: fat1 last_free_fat_def)
  ultimately show ?thesis
    using rdG by (simp add: wf fs1_def)
qed


end
